theory Spec2Isabelle
  imports Complex_Main "HOL-Library.Multiset"
begin

section \<open>Types (types.ts)\<close>

text \<open>
  The enum \<open>Direction\<close> has the numeric values UP = 0, RIGHT = 1, DOWN = 2, LEFT = 3.
  The code does arithmetic on these numbers (\<open>(d + 3) % 4\<close>, \<open>(d + 1) % 4\<close>) and uses the
  result as a direction again, so the enum comes with its two conversions.
\<close>

datatype Direction = UP | RIGHT | DOWN | LEFT

fun dirNum :: "Direction \<Rightarrow> int" where
  "dirNum UP = 0"
| "dirNum RIGHT = 1"
| "dirNum DOWN = 2"
| "dirNum LEFT = 3"

definition numDir :: "int \<Rightarrow> Direction" where
  "numDir n = (if n = 0 then UP else if n = 1 then RIGHT else if n = 2 then DOWN else LEFT)"

text \<open>
  A JavaScript \<open>number\<close> that holds a grid coordinate, an identifier or a counter is an
  integer. The fields \<open>x\<close>, \<open>y\<close> and \<open>id\<close> are written \<open>cx\<close>, \<open>cy\<close>, \<open>pid\<close> and \<open>wid\<close>.
\<close>

record Coordinate =
  cx :: int
  cy :: int

record Player =
  pid :: int
  color :: string
  head :: Coordinate
  trail :: "Coordinate list"
  direction :: Direction
  isDead :: bool
  score :: int
  name :: string

record Walker =
  wid :: int
  position :: Coordinate
  moveTimer :: int

datatype GameMode = PVP | PVE

datatype GameStatus = MENU | PLAYING | PAUSED | GAME_OVER

record GameConfig =
  gridWidth :: int
  gridHeight :: int
  speed :: int

section \<open>Game logic (utils/gameLogic)\<close>

fun getNextPosition :: "Coordinate \<Rightarrow> Direction \<Rightarrow> Coordinate" where
  "getNextPosition h UP = \<lparr>cx = cx h, cy = cy h - 1\<rparr>"
| "getNextPosition h DOWN = \<lparr>cx = cx h, cy = cy h + 1\<rparr>"
| "getNextPosition h LEFT = \<lparr>cx = cx h - 1, cy = cy h\<rparr>"
| "getNextPosition h RIGHT = \<lparr>cx = cx h + 1, cy = cy h\<rparr>"

text \<open>The inner loop of \<open>checkCollision\<close>: one trail, returning at the first equal segment.\<close>

fun hitsTrail :: "Coordinate \<Rightarrow> Coordinate list \<Rightarrow> bool" where
  "hitsTrail pos [] = False"
| "hitsTrail pos (segment # rest) =
     (if cx pos = cx segment \<and> cy pos = cy segment then True else hitsTrail pos rest)"

text \<open>The outer loop of \<open>checkCollision\<close>, over the players.\<close>

fun hitsAnyTrail :: "Coordinate \<Rightarrow> Player list \<Rightarrow> bool" where
  "hitsAnyTrail pos [] = False"
| "hitsAnyTrail pos (player # rest) =
     (if hitsTrail pos (trail player) then True else hitsAnyTrail pos rest)"

definition checkCollision :: "Coordinate \<Rightarrow> int \<Rightarrow> int \<Rightarrow> Player list \<Rightarrow> bool" where
  "checkCollision pos width height players =
     (if cx pos < 0 \<or> cx pos \<ge> width \<or> cy pos < 0 \<or> cy pos \<ge> height then True
      else hitsAnyTrail pos players)"

text \<open>
  The obstacle and visited sets are \<open>Set<string>\<close> keyed by \<open>`${x},${y}`\<close>. On integer
  coordinates this key determines the pair \<open>(x, y)\<close> and is determined by it, so the
  key is modelled as the pair.
\<close>

definition key :: "Coordinate \<Rightarrow> int \<times> int" where
  "key c = (cx c, cy c)"

definition neighbors :: "Coordinate \<Rightarrow> Coordinate list" where
  "neighbors c =
     [\<lparr>cx = cx c + 1, cy = cy c\<rparr>,
      \<lparr>cx = cx c - 1, cy = cy c\<rparr>,
      \<lparr>cx = cx c, cy = cy c + 1\<rparr>,
      \<lparr>cx = cx c, cy = cy c - 1\<rparr>]"

text \<open>The \<open>for (const n of neighbors)\<close> loop of \<open>floodFillCount\<close>, on the queue and the visited set.\<close>

fun visitNeighbors ::
  "int \<Rightarrow> int \<Rightarrow> (int \<times> int) set \<Rightarrow> Coordinate list \<Rightarrow> Coordinate list \<Rightarrow> (int \<times> int) set
   \<Rightarrow> Coordinate list \<times> (int \<times> int) set" where
  "visitNeighbors width height obstacles [] queue visited = (queue, visited)"
| "visitNeighbors width height obstacles (n # ns) queue visited =
     (if cx n \<ge> 0 \<and> cx n < width \<and> cy n \<ge> 0 \<and> cy n < height
         \<and> key n \<notin> obstacles \<and> key n \<notin> visited
      then visitNeighbors width height obstacles ns (queue @ [n]) (insert (key n) visited)
      else visitNeighbors width height obstacles ns queue visited)"

text \<open>
  The \<open>while (queue.length > 0 && steps < depth * 5)\<close> loop; \<open>limit\<close> is \<open>depth * 5\<close>.
  Every iteration increments \<open>steps\<close>, which is the termination measure; \<open>cnt\<close> is the variable \<open>count\<close>.
\<close>

function floodLoop ::
  "int \<Rightarrow> int \<Rightarrow> (int \<times> int) set \<Rightarrow> int \<Rightarrow> Coordinate list \<Rightarrow> (int \<times> int) set \<Rightarrow> int \<Rightarrow> int
   \<Rightarrow> int" where
  "floodLoop width height obstacles limit queue visited cnt steps =
     (if queue \<noteq> [] \<and> steps < limit
      then (case visitNeighbors width height obstacles (neighbors (hd queue)) (tl queue) visited of
              (queue', visited') \<Rightarrow>
                floodLoop width height obstacles limit queue' visited' (cnt + 1) (steps + 1))
      else cnt)"
  by pat_completeness auto
termination
  by (relation "measure (\<lambda>(width, height, obstacles, limit, queue, visited, cnt, steps).
        nat (limit - steps))") auto

declare floodLoop.simps [simp del]

definition floodFillCount ::
  "Coordinate \<Rightarrow> int \<Rightarrow> int \<Rightarrow> (int \<times> int) set \<Rightarrow> int \<Rightarrow> int" where
  "floodFillCount start width height obstacles depth =
     floodLoop width height obstacles (depth * 5) [start] (insert (key start) {}) 0 0"

text \<open>The default value of the parameter \<open>depth\<close>.\<close>

definition defaultDepth :: int where
  "defaultDepth = 20"

text \<open>The two nested loops of \<open>getAIMove\<close> that collect every trail cell and every head.\<close>

definition addPlayer :: "Player \<Rightarrow> (int \<times> int) set \<Rightarrow> (int \<times> int) set" where
  "addPlayer p obstacles = insert (key (head p)) (fold (\<lambda>t acc. insert (key t) acc) (trail p) obstacles)"

definition buildObstacles :: "Player list \<Rightarrow> (int \<times> int) set" where
  "buildObstacles players = fold addPlayer players {}"

text \<open>The candidate moves in their order before the shuffle: straight, left, right.\<close>

definition possibleMoves :: "Direction \<Rightarrow> Direction list" where
  "possibleMoves currentDir =
     [currentDir, numDir ((dirNum currentDir + 3) mod 4), numDir ((dirNum currentDir + 1) mod 4)]"

text \<open>
  \<open>possibleMoves.sort(() => Math.random() - 0.5)\<close> leaves the three candidates in some
  order. That order is the parameter \<open>perm\<close>: position \<open>k\<close> of the shuffled array holds the
  candidate that was at position \<open>perm ! k\<close>.
\<close>

definition isShuffle :: "nat list \<Rightarrow> bool" where
  "isShuffle perm \<longleftrightarrow> mset perm = mset [0, 1, 2]"

definition shuffled :: "nat list \<Rightarrow> Direction list \<Rightarrow> Direction list" where
  "shuffled perm moves = map (\<lambda>i. moves ! i) perm"

text \<open>The predicate of the immediate collision check of \<open>getAIMove\<close>.\<close>

definition lethal :: "Coordinate \<Rightarrow> int \<Rightarrow> int \<Rightarrow> (int \<times> int) set \<Rightarrow> bool" where
  "lethal nextPos width height obstacles \<longleftrightarrow>
     cx nextPos < 0 \<or> cx nextPos \<ge> width \<or> cy nextPos < 0 \<or> cy nextPos \<ge> height
     \<or> key nextPos \<in> obstacles"

text \<open>The \<open>for (const move of possibleMoves)\<close> loop, on \<open>bestMove\<close> and \<open>maxSpace\<close>.\<close>

fun chooseMove ::
  "Coordinate \<Rightarrow> int \<Rightarrow> int \<Rightarrow> (int \<times> int) set \<Rightarrow> Direction list \<Rightarrow> Direction \<Rightarrow> int \<Rightarrow> Direction" where
  "chooseMove h width height obstacles [] bestMove maxSpace = bestMove"
| "chooseMove h width height obstacles (move # rest) bestMove maxSpace =
     (if lethal (getNextPosition h move) width height obstacles
      then chooseMove h width height obstacles rest bestMove maxSpace
      else (let space = floodFillCount (getNextPosition h move) width height obstacles defaultDepth
            in if space > maxSpace
               then chooseMove h width height obstacles rest move space
               else chooseMove h width height obstacles rest bestMove maxSpace))"

definition getAIMove :: "nat list \<Rightarrow> Player \<Rightarrow> Player list \<Rightarrow> int \<Rightarrow> int \<Rightarrow> Direction" where
  "getAIMove perm aiPlayer players width height =
     chooseMove (head aiPlayer) width height (buildObstacles players)
       (shuffled perm (possibleMoves (direction aiPlayer))) (direction aiPlayer) (- 1)"

text \<open>
  \<open>getWalkerMove\<close>: \<open>rand\<close> is the value of \<open>Math.random()\<close>, a number with
  \<open>0 \<le> rand < 1\<close>. The parameter \<open>obstacles\<close> is not read by the code.
\<close>

definition inGrid :: "int \<Rightarrow> int \<Rightarrow> Coordinate \<Rightarrow> bool" where
  "inGrid width height m \<longleftrightarrow> cx m \<ge> 0 \<and> cx m < width \<and> cy m \<ge> 0 \<and> cy m < height"

definition getWalkerMove ::
  "Coordinate \<Rightarrow> int \<Rightarrow> int \<Rightarrow> (int \<times> int) set \<Rightarrow> real \<Rightarrow> Coordinate" where
  "getWalkerMove currentPos width height obstacles rand =
     (let validMoves = filter (inGrid width height) (neighbors currentPos)
      in if length validMoves = 0 then currentPos
         else validMoves ! nat \<lfloor>rand * real (length validMoves)\<rfloor>)"

section \<open>The match engine (components/Game)\<close>

definition WALKER_SPEED_MOD :: int where
  "WALKER_SPEED_MOD = 2"

definition P1_START_POS :: Coordinate where
  "P1_START_POS = \<lparr>cx = 10, cy = 20\<rparr>"

definition P2_START_POS :: Coordinate where
  "P2_START_POS = \<lparr>cx = 50, cy = 20\<rparr>"

record Scores =
  p1 :: int
  p2 :: int

text \<open>
  The state of the component: the React state (\<open>config\<close>, \<open>status\<close>, \<open>mode\<close>, \<open>winner\<close>,
  \<open>scores\<close>) and the refs (\<open>playersRef\<close>, \<open>walkersRef\<close>, \<open>isGameOverRef\<close>,
  \<open>inputQueueRef\<close>). The input queue is an object indexed by player id; an id that is
  not a key of it yields \<open>undefined\<close>.
\<close>

record Game =
  config :: GameConfig
  status :: GameStatus
  mode :: GameMode
  winner :: "string option"
  scores :: Scores
  players :: "Player list"
  walkers :: "Walker list"
  isGameOver :: bool
  inputQueue :: "int \<rightharpoonup> Direction list"

text \<open>Reading a property of \<open>undefined\<close> throws a TypeError.\<close>

datatype error = TypeError

text \<open>
  \<open>initGame\<close>: the two players and the empty queues. The walkers are placed at random;
  \<open>newWalkers\<close> is the pool that the sampling loop has produced.
\<close>

definition initGame :: "Walker list \<Rightarrow> Game \<Rightarrow> Game" where
  "initGame newWalkers g =
     g\<lparr>players :=
         [\<lparr>pid = 1, color = ''#00f3ff'', head = P1_START_POS, trail = [P1_START_POS],
           direction = RIGHT, isDead = False, score = 0, name = ''Player 1''\<rparr>,
          \<lparr>pid = 2, color = ''#ff003c'', head = P2_START_POS, trail = [P2_START_POS],
           direction = LEFT, isDead = False, score = 0,
           name = (if mode g = PVE then ''CPU'' else ''Player 2'')\<rparr>],
       walkers := newWalkers,
       inputQueue := [1 \<mapsto> [], 2 \<mapsto> []],
       isGameOver := False,
       winner := None\<rparr>"

datatype Turn = TurnLeft | TurnRight

text \<open>
  \<open>registerTurn\<close> of the key handler. \<open>p1\<close> and \<open>p2\<close> are \<open>players[0]\<close> and \<open>players[1]\<close>,
  which are \<open>undefined\<close> when the array is shorter.
\<close>

definition liveDirection :: "Game \<Rightarrow> int \<Rightarrow> Direction option" where
  "liveDirection g playerId =
     (if playerId = 1
      then (if 0 < length (players g) then Some (direction (players g ! 0)) else None)
      else (if 1 < length (players g) then Some (direction (players g ! 1)) else None))"

definition registerTurn :: "Game \<Rightarrow> int \<Rightarrow> Turn \<Rightarrow> error + Game" where
  "registerTurn g playerId turn =
     (case inputQueue g playerId of
        None \<Rightarrow> Inl TypeError
      | Some queue \<Rightarrow>
          if length queue > 2 then Inr g
          else (case (if length queue > 0 then Some (last queue) else liveDirection g playerId) of
                  None \<Rightarrow> Inl TypeError
                | Some lastDir \<Rightarrow>
                    (let newDir = (case turn of
                                     TurnLeft \<Rightarrow> numDir ((dirNum lastDir + 3) mod 4)
                                   | TurnRight \<Rightarrow> numDir ((dirNum lastDir + 1) mod 4))
                     in if newDir \<noteq> lastDir
                        then Inr (g\<lparr>inputQueue := (inputQueue g)(playerId \<mapsto> queue @ [newDir])\<rparr>)
                        else Inr g)))"

text \<open>A sequence of turn requests of one player, stopping at the first error.\<close>

fun registerTurns :: "Game \<Rightarrow> int \<Rightarrow> Turn list \<Rightarrow> error + Game" where
  "registerTurns g playerId [] = Inr g"
| "registerTurns g playerId (turn # rest) =
     (case registerTurn g playerId turn of
        Inl e \<Rightarrow> Inl e
      | Inr g' \<Rightarrow> registerTurns g' playerId rest)"

text \<open>The queue of a player after a sequence of turn requests.\<close>

definition queueAfter :: "Game \<Rightarrow> int \<Rightarrow> Turn list \<Rightarrow> (error + Direction list option)" where
  "queueAfter g playerId turns =
     (case registerTurns g playerId turns of
        Inl e \<Rightarrow> Inl e
      | Inr g' \<Rightarrow> Inr (inputQueue g' playerId))"

subsection \<open>One tick: \<open>updateGame\<close>\<close>

text \<open>
  The random outcomes of one tick: for the player at index \<open>i\<close> of the array the order
  that the shuffle of its \<open>getAIMove\<close> call produces, and for the walker at index \<open>j\<close> the
  value of \<open>Math.random()\<close> in its \<open>getWalkerMove\<close> call.
\<close>

record Random =
  aiShuffle :: "nat \<Rightarrow> nat list"
  walkerRand :: "nat \<Rightarrow> real"

text \<open>Step 1, first statement: \<open>if (queue.length > 0) p.direction = queue.shift()\<close>.\<close>

definition applyQueue ::
  "Player \<Rightarrow> (int \<rightharpoonup> Direction list) \<Rightarrow> error + (Player \<times> (int \<rightharpoonup> Direction list))" where
  "applyQueue p queues =
     (case queues (pid p) of
        None \<Rightarrow> Inl TypeError
      | Some queue \<Rightarrow>
          if length queue > 0
          then Inr (p\<lparr>direction := hd queue\<rparr>, queues(pid p \<mapsto> tl queue))
          else Inr (p, queues))"

text \<open>
  Step 1, second statement: \<open>if (mode === PVE && p.id === 2) { ... getAIMove ... }\<close>;
  \<open>ps\<close> is the array \<open>players\<close> at that moment.
\<close>

definition applyAI :: "GameMode \<Rightarrow> GameConfig \<Rightarrow> nat list \<Rightarrow> Player \<Rightarrow> Player list \<Rightarrow> Player" where
  "applyAI m cfg perm p ps =
     (if m = PVE \<and> pid p = 2
      then (let newDir = getAIMove perm p ps (gridWidth cfg) (gridHeight cfg)
            in if newDir \<noteq> direction p then p\<lparr>direction := newDir\<rparr> else p)
      else p)"

text \<open>
  Step 1, the \<open>forEach\<close>: \<open>done\<close> are the players already visited, as they are now, and
  the second list the players still to visit.
\<close>

fun processInputs ::
  "GameMode \<Rightarrow> GameConfig \<Rightarrow> (nat \<Rightarrow> nat list) \<Rightarrow> Player list \<Rightarrow> Player list
   \<Rightarrow> (int \<rightharpoonup> Direction list) \<Rightarrow> error + (Player list \<times> (int \<rightharpoonup> Direction list))" where
  "processInputs m cfg sh done [] queues = Inr (done, queues)"
| "processInputs m cfg sh done (p # rest) queues =
     (if isDead p then processInputs m cfg sh (done @ [p]) rest queues
      else (case applyQueue p queues of
              Inl e \<Rightarrow> Inl e
            | Inr (p', queues') \<Rightarrow>
                processInputs m cfg sh
                  (done @ [applyAI m cfg (sh (length done)) p' (done @ p' # rest)]) rest queues'))"

text \<open>Step 2, for the walker at index \<open>j\<close>.\<close>

definition stepWalker :: "GameConfig \<Rightarrow> real \<Rightarrow> Walker \<Rightarrow> Walker" where
  "stepWalker cfg rand w =
     (let t = moveTimer w + 1
      in if t \<ge> WALKER_SPEED_MOD
         then w\<lparr>moveTimer := 0,
                position := getWalkerMove (position w) (gridWidth cfg) (gridHeight cfg) {} rand\<rparr>
         else w\<lparr>moveTimer := t\<rparr>)"

definition moveWalkers :: "GameConfig \<Rightarrow> (nat \<Rightarrow> real) \<Rightarrow> Walker list \<Rightarrow> Walker list" where
  "moveWalkers cfg rnd ws = map (\<lambda>j. stepWalker cfg (rnd j) (ws ! j)) [0..<length ws]"

text \<open>Step 3.\<close>

definition movePlayer :: "Player \<Rightarrow> Player" where
  "movePlayer p =
     (if isDead p then p
      else p\<lparr>trail := trail p @ [head p], head := getNextPosition (head p) (direction p)\<rparr>)"

text \<open>Step 4: the additions to \<open>deaths\<close>.\<close>

definition pushNew :: "int \<Rightarrow> int list \<Rightarrow> int list" where
  "pushNew i deaths = (if i \<in> set deaths then deaths else deaths @ [i])"

fun walkerHits :: "Player \<Rightarrow> Walker list \<Rightarrow> int list \<Rightarrow> int list" where
  "walkerHits p [] deaths = deaths"
| "walkerHits p (w # ws) deaths =
     (if cx (head p) = cx (position w) \<and> cy (head p) = cy (position w)
      then walkerHits p ws (pushNew (pid p) deaths)
      else walkerHits p ws deaths)"

definition headToHead :: "Player \<Rightarrow> Player list \<Rightarrow> int list \<Rightarrow> int list" where
  "headToHead p ps deaths =
     (case find (\<lambda>op. pid op \<noteq> pid p) ps of
        None \<Rightarrow> deaths
      | Some opponent \<Rightarrow>
          if \<not> isDead opponent \<and> cx (head p) = cx (head opponent) \<and> cy (head p) = cy (head opponent)
          then pushNew (pid opponent) (pushNew (pid p) deaths)
          else deaths)"

definition checkPlayer :: "GameConfig \<Rightarrow> Player list \<Rightarrow> Walker list \<Rightarrow> Player \<Rightarrow> int list \<Rightarrow> int list" where
  "checkPlayer cfg ps ws p deaths =
     (if isDead p then deaths
      else headToHead p ps
             (walkerHits p ws
                (if checkCollision (head p) (gridWidth cfg) (gridHeight cfg) ps
                 then deaths @ [pid p] else deaths)))"

definition collectDeaths :: "GameConfig \<Rightarrow> Player list \<Rightarrow> Walker list \<Rightarrow> int list" where
  "collectDeaths cfg ps ws = fold (checkPlayer cfg ps ws) ps []"

text \<open>Step 5: \<open>players.find(pl => pl.id === id)\<close> is the first player with that id.\<close>

fun markDead :: "int \<Rightarrow> Player list \<Rightarrow> Player list" where
  "markDead i [] = []"
| "markDead i (p # ps) = (if pid p = i then p\<lparr>isDead := True\<rparr> # ps else p # markDead i ps)"

definition applyDeaths :: "int list \<Rightarrow> Player list \<Rightarrow> Player list" where
  "applyDeaths deaths ps = fold markDead deaths ps"

text \<open>Step 6: the win condition.\<close>

definition addWin :: "int \<Rightarrow> Scores \<Rightarrow> Scores" where
  "addWin winnerId prev = (if winnerId = 1 then prev\<lparr>p1 := p1 prev + 1\<rparr> else prev\<lparr>p2 := p2 prev + 1\<rparr>)"

definition checkWin :: "Game \<Rightarrow> Game" where
  "checkWin g =
     (let alivePlayers = filter (\<lambda>p. \<not> isDead p) (players g)
      in if length alivePlayers = 0
         then g\<lparr>isGameOver := True, winner := Some ''DRAW'', status := GAME_OVER\<rparr>
         else if length alivePlayers = 1
         then g\<lparr>isGameOver := True, winner := Some (name (hd alivePlayers)), status := GAME_OVER,
                scores := addWin (pid (hd alivePlayers)) (scores g)\<rparr>
         else g)"

definition updateGame :: "Random \<Rightarrow> Game \<Rightarrow> error + Game" where
  "updateGame rnd g =
     (if isGameOver g then Inr g
      else (case processInputs (mode g) (config g) (aiShuffle rnd) [] (players g) (inputQueue g) of
              Inl e \<Rightarrow> Inl e
            | Inr (ps1, queues) \<Rightarrow>
                (let ws = moveWalkers (config g) (walkerRand rnd) (walkers g);
                     ps3 = map movePlayer ps1;
                     deaths = collectDeaths (config g) ps3 ws
                 in Inr (checkWin (g\<lparr>players := applyDeaths deaths ps3, walkers := ws,
                                      inputQueue := queues\<rparr>)))))"

text \<open>Consecutive ticks, one \<open>Random\<close> each.\<close>

fun runTicks :: "Random list \<Rightarrow> Game \<Rightarrow> error + Game" where
  "runTicks [] g = Inr g"
| "runTicks (rnd # rnds) g =
     (case updateGame rnd g of
        Inl e \<Rightarrow> Inl e
      | Inr g' \<Rightarrow> runTicks rnds g')"

section \<open>Predicates of the properties\<close>

text \<open>
  A position that is in bounds and neither a trail cell nor a head of any player: the
  negation of the immediate collision check of \<open>getAIMove\<close>, on its obstacle set.
\<close>

definition survivable :: "Coordinate \<Rightarrow> int \<Rightarrow> int \<Rightarrow> Player list \<Rightarrow> bool" where
  "survivable pos width height ps \<longleftrightarrow>
     0 \<le> cx pos \<and> cx pos < width \<and> 0 \<le> cy pos \<and> cy pos < height
     \<and> (\<forall>p \<in> set ps. pos \<noteq> head p \<and> pos \<notin> set (trail p))"

text \<open>Two cells that differ by one step along one axis.\<close>

definition orthogonalNeighbor :: "Coordinate \<Rightarrow> Coordinate \<Rightarrow> bool" where
  "orthogonalNeighbor a b \<longleftrightarrow> \<bar>cx b - cx a\<bar> + \<bar>cy b - cy a\<bar> = 1"

text \<open>Every living player has an input queue, so that step 1 reads no \<open>undefined\<close>.\<close>

definition queuesReady :: "Game \<Rightarrow> bool" where
  "queuesReady g \<longleftrightarrow> (\<forall>p \<in> set (players g). \<not> isDead p \<longrightarrow> inputQueue g (pid p) \<noteq> None)"

text \<open>Two players that differ at most in their direction.\<close>

definition sameBody :: "Player \<Rightarrow> Player \<Rightarrow> bool" where
  "sameBody a b \<longleftrightarrow> pid a = pid b \<and> head a = head b \<and> trail a = trail b \<and> isDead a = isDead b \<and> name a = name b"

text \<open>Two players of which the first is the second, possibly marked dead.\<close>

definition sameButDead :: "Player \<Rightarrow> Player \<Rightarrow> bool" where
  "sameButDead a b \<longleftrightarrow> pid a = pid b \<and> head a = head b \<and> trail a = trail b
     \<and> direction a = direction b \<and> name a = name b \<and> (isDead b \<longrightarrow> isDead a)"

section \<open>Concrete states\<close>

text \<open>The shuffle that leaves the candidates in their order.\<close>

definition keepOrder :: "nat list" where
  "keepOrder = [0, 1, 2]"

text \<open>A tick in which every shuffle keeps the order and every \<open>Math.random()\<close> is 0.\<close>

definition noRandom :: Random where
  "noRandom = \<lparr>aiShuffle = (\<lambda>i. keepOrder), walkerRand = (\<lambda>j. 0)\<rparr>"

text \<open>The same with every \<open>Math.random()\<close> equal to 1/2.\<close>

definition halfRandom :: Random where
  "halfRandom = \<lparr>aiShuffle = (\<lambda>i. [0, 1, 2]), walkerRand = (\<lambda>j. 1 / 2)\<rparr>"

text \<open>
  A 10 x 10 grid with one player, built as \<open>initGame\<close> builds player 1 (the start cell is
  the first element of the trail), at (5,5) and facing RIGHT; no walkers, empty queues.
\<close>

definition soloPlayer :: Player where
  "soloPlayer =
     \<lparr>pid = 1, color = ''#00f3ff'', head = \<lparr>cx = 5, cy = 5\<rparr>, trail = [\<lparr>cx = 5, cy = 5\<rparr>],
      direction = RIGHT, isDead = False, score = 0, name = ''Player 1''\<rparr>"

definition soloGame :: Game where
  "soloGame =
     \<lparr>config = \<lparr>gridWidth = 10, gridHeight = 10, speed = 80\<rparr>, status = PLAYING, mode = PVP,
      winner = None, scores = \<lparr>p1 = 0, p2 = 0\<rparr>, players = [soloPlayer], walkers = [],
      isGameOver = False, inputQueue = [1 \<mapsto> [], 2 \<mapsto> []]\<rparr>"

definition soloEnd :: Game where
  "soloEnd =
     soloGame\<lparr>players := [soloPlayer\<lparr>head := \<lparr>cx = 6, cy = 5\<rparr>,
                                      trail := [\<lparr>cx = 5, cy = 5\<rparr>, \<lparr>cx = 5, cy = 5\<rparr>]\<rparr>],
              isGameOver := True, winner := Some ''Player 1'', status := GAME_OVER,
              scores := \<lparr>p1 = 1, p2 = 0\<rparr>\<rparr>"

text \<open>The state after \<open>initGame\<close> in a two-player match on the default 60 x 40 grid, no walkers.\<close>

definition duelGame :: Game where
  "duelGame =
     initGame []
       \<lparr>config = \<lparr>gridWidth = 60, gridHeight = 40, speed = 80\<rparr>, status = PLAYING, mode = PVP,
        winner = None, scores = \<lparr>p1 = 0, p2 = 0\<rparr>, players = [], walkers = [],
        isGameOver = False, inputQueue = Map.empty\<rparr>"

text \<open>A player in the top row of a 3 x 3 grid, facing the wall.\<close>

definition cornerPlayer :: Player where
  "cornerPlayer =
     \<lparr>pid = 2, color = ''#ff003c'', head = \<lparr>cx = 1, cy = 0\<rparr>, trail = [\<lparr>cx = 1, cy = 1\<rparr>],
      direction = UP, isDead = False, score = 0, name = ''CPU''\<rparr>"

text \<open>A player on a 2 x 1 grid with its own trail on the only other cell.\<close>

definition trappedPlayer :: Player where
  "trappedPlayer =
     \<lparr>pid = 2, color = ''#ff003c'', head = \<lparr>cx = 0, cy = 0\<rparr>, trail = [\<lparr>cx = 1, cy = 0\<rparr>],
      direction = UP, isDead = False, score = 0, name = ''CPU''\<rparr>"

text \<open>Two players on neighbouring cells of a 10 x 10 grid, facing each other.\<close>

definition swapGame :: Game where
  "swapGame =
     \<lparr>config = \<lparr>gridWidth = 10, gridHeight = 10, speed = 80\<rparr>, status = PLAYING, mode = PVP,
      winner = None, scores = \<lparr>p1 = 0, p2 = 0\<rparr>,
      players =
        [\<lparr>pid = 1, color = ''#00f3ff'', head = \<lparr>cx = 5, cy = 5\<rparr>, trail = [\<lparr>cx = 5, cy = 5\<rparr>],
          direction = RIGHT, isDead = False, score = 0, name = ''Player 1''\<rparr>,
         \<lparr>pid = 2, color = ''#ff003c'', head = \<lparr>cx = 6, cy = 5\<rparr>, trail = [\<lparr>cx = 6, cy = 5\<rparr>],
          direction = LEFT, isDead = False, score = 0, name = ''Player 2''\<rparr>],
      walkers = [], isGameOver = False, inputQueue = [1 \<mapsto> [], 2 \<mapsto> []]\<rparr>"

definition swapEnd :: Game where
  "swapEnd =
     swapGame\<lparr>players :=
        [\<lparr>pid = 1, color = ''#00f3ff'', head = \<lparr>cx = 6, cy = 5\<rparr>,
          trail = [\<lparr>cx = 5, cy = 5\<rparr>, \<lparr>cx = 5, cy = 5\<rparr>],
          direction = RIGHT, isDead = True, score = 0, name = ''Player 1''\<rparr>,
         \<lparr>pid = 2, color = ''#ff003c'', head = \<lparr>cx = 5, cy = 5\<rparr>,
          trail = [\<lparr>cx = 6, cy = 5\<rparr>, \<lparr>cx = 6, cy = 5\<rparr>],
          direction = LEFT, isDead = True, score = 0, name = ''Player 2''\<rparr>],
       isGameOver := True, winner := Some ''DRAW'', status := GAME_OVER\<rparr>"

text \<open>\<open>duelGame\<close> with two walkers, one of them about to move.\<close>

definition hazardGame :: Game where
  "hazardGame =
     duelGame\<lparr>walkers := [\<lparr>wid = 0, position = \<lparr>cx = 0, cy = 0\<rparr>, moveTimer = 1\<rparr>,
                          \<lparr>wid = 1, position = \<lparr>cx = 30, cy = 30\<rparr>, moveTimer = 0\<rparr>]\<rparr>"

text \<open>
  \<open>soloGame\<close> with a second player in the corner (0,0), facing DOWN, and the state that
  five ticks lead to.
\<close>

definition pairGame :: Game where
  "pairGame =
     soloGame\<lparr>players :=
        [soloPlayer,
         \<lparr>pid = 2, color = ''#ff003c'', head = \<lparr>cx = 0, cy = 0\<rparr>, trail = [\<lparr>cx = 0, cy = 0\<rparr>],
          direction = DOWN, isDead = False, score = 0, name = ''Player 2''\<rparr>]\<rparr>"

definition pairEnd :: Game where
  "pairEnd =
     pairGame\<lparr>players :=
        [soloPlayer\<lparr>head := \<lparr>cx = 10, cy = 5\<rparr>,
                    trail := [\<lparr>cx = 5, cy = 5\<rparr>, \<lparr>cx = 5, cy = 5\<rparr>, \<lparr>cx = 6, cy = 5\<rparr>,
                              \<lparr>cx = 7, cy = 5\<rparr>, \<lparr>cx = 8, cy = 5\<rparr>, \<lparr>cx = 9, cy = 5\<rparr>],
                    isDead := True\<rparr>,
         \<lparr>pid = 2, color = ''#ff003c'', head = \<lparr>cx = 0, cy = 5\<rparr>,
          trail = [\<lparr>cx = 0, cy = 0\<rparr>, \<lparr>cx = 0, cy = 0\<rparr>, \<lparr>cx = 0, cy = 1\<rparr>,
                   \<lparr>cx = 0, cy = 2\<rparr>, \<lparr>cx = 0, cy = 3\<rparr>, \<lparr>cx = 0, cy = 4\<rparr>],
          direction = DOWN, isDead = False, score = 0, name = ''Player 2''\<rparr>],
       isGameOver := True, winner := Some ''Player 2'', status := GAME_OVER,
       scores := \<lparr>p1 = 0, p2 = 1\<rparr>\<rparr>"

text \<open>
  A match against the CPU on a 4 x 4 grid in which the queue of player 2 holds a turn, and
  the state after one tick.
\<close>

definition pveGame :: Game where
  "pveGame =
     \<lparr>config = \<lparr>gridWidth = 4, gridHeight = 4, speed = 80\<rparr>, status = PLAYING, mode = PVE,
      winner = None, scores = \<lparr>p1 = 0, p2 = 0\<rparr>,
      players =
        [\<lparr>pid = 1, color = ''#00f3ff'', head = \<lparr>cx = 0, cy = 3\<rparr>, trail = [\<lparr>cx = 0, cy = 3\<rparr>],
          direction = RIGHT, isDead = False, score = 0, name = ''Player 1''\<rparr>,
         \<lparr>pid = 2, color = ''#ff003c'', head = \<lparr>cx = 2, cy = 0\<rparr>, trail = [\<lparr>cx = 2, cy = 0\<rparr>],
          direction = LEFT, isDead = False, score = 0, name = ''CPU''\<rparr>],
      walkers = [], isGameOver = False, inputQueue = [1 \<mapsto> [], 2 \<mapsto> [UP]]\<rparr>"

definition pveNext :: Game where
  "pveNext =
     pveGame\<lparr>players :=
        [\<lparr>pid = 1, color = ''#00f3ff'', head = \<lparr>cx = 1, cy = 3\<rparr>,
          trail = [\<lparr>cx = 0, cy = 3\<rparr>, \<lparr>cx = 0, cy = 3\<rparr>],
          direction = RIGHT, isDead = False, score = 0, name = ''Player 1''\<rparr>,
         \<lparr>pid = 2, color = ''#ff003c'', head = \<lparr>cx = 1, cy = 0\<rparr>,
          trail = [\<lparr>cx = 2, cy = 0\<rparr>, \<lparr>cx = 2, cy = 0\<rparr>],
          direction = LEFT, isDead = False, score = 0, name = ''CPU''\<rparr>],
       inputQueue := [1 \<mapsto> [], 2 \<mapsto> []]\<rparr>"

section \<open>Collision detection\<close>

lemma hitsTrail_iff: "hitsTrail pos tr \<longleftrightarrow> pos \<in> set tr"
  by (induction tr) auto

lemma hitsAnyTrail_iff: "hitsAnyTrail pos ps \<longleftrightarrow> (\<exists>p \<in> set ps. pos \<in> set (trail p))"
  by (induction ps) (auto simp: hitsTrail_iff)

text \<open>
  C7: \<open>checkCollision\<close> is true if and only if the position is out of bounds (x < 0,
  x \<ge> width, y < 0 or y \<ge> height) or equals a coordinate in the trail of some player of the
  list, the trail of the querying player included (it is one of the list).
\<close>

theorem checkCollision_iff:
  "checkCollision pos width height ps \<longleftrightarrow>
     (cx pos < 0 \<or> cx pos \<ge> width \<or> cy pos < 0 \<or> cy pos \<ge> height)
     \<or> (\<exists>player \<in> set ps. \<exists>segment \<in> set (trail player). pos = segment)"
  by (auto simp: checkCollision_def hitsAnyTrail_iff)

theorem checkCollision_iff_witness:
  "checkCollision \<lparr>cx = 5, cy = 5\<rparr> 10 10 [soloPlayer]
   \<and> checkCollision \<lparr>cx = 10, cy = 5\<rparr> 10 10 [soloPlayer]
   \<and> \<not> checkCollision \<lparr>cx = 6, cy = 5\<rparr> 10 10 [soloPlayer]"
  using checkCollision_iff [of "\<lparr>cx = 5, cy = 5\<rparr>" 10 10 "[soloPlayer]"]
        checkCollision_iff [of "\<lparr>cx = 10, cy = 5\<rparr>" 10 10 "[soloPlayer]"]
        checkCollision_iff [of "\<lparr>cx = 6, cy = 5\<rparr>" 10 10 "[soloPlayer]"]
  by (simp add: soloPlayer_def)

section \<open>Flood fill\<close>

lemma floodLoop_le:
  "0 \<le> cnt \<Longrightarrow> cnt \<le> steps \<Longrightarrow> steps \<le> limit \<Longrightarrow>
   floodLoop width height obstacles limit queue visited cnt steps \<le> cnt + (limit - steps)"
proof (induction width height obstacles limit queue visited cnt steps rule: floodLoop.induct)
  case (1 width height obstacles limit queue visited cnt steps)
  show ?case
  proof (cases "queue \<noteq> [] \<and> steps < limit")
    case True
    obtain q' v' where
      v: "visitNeighbors width height obstacles (neighbors (hd queue)) (tl queue) visited = (q', v')"
      by (cases "visitNeighbors width height obstacles (neighbors (hd queue)) (tl queue) visited")
    from "1.IH" [OF True v [symmetric]] "1.prems" True
    have "floodLoop width height obstacles limit q' v' (cnt + 1) (steps + 1)
          \<le> cnt + 1 + (limit - (steps + 1))"
      by simp
    then show ?thesis using True v by (subst floodLoop.simps) simp
  next
    case False
    then show ?thesis using "1.prems" by (subst floodLoop.simps) auto
  qed
qed

lemma floodLoop_ge: "cnt \<le> floodLoop width height obstacles limit queue visited cnt steps"
proof (induction width height obstacles limit queue visited cnt steps rule: floodLoop.induct)
  case (1 width height obstacles limit queue visited cnt steps)
  show ?case
  proof (cases "queue \<noteq> [] \<and> steps < limit")
    case True
    obtain q' v' where
      v: "visitNeighbors width height obstacles (neighbors (hd queue)) (tl queue) visited = (q', v')"
      by (cases "visitNeighbors width height obstacles (neighbors (hd queue)) (tl queue) visited")
    from "1.IH" [OF True v [symmetric]]
    have "cnt + 1 \<le> floodLoop width height obstacles limit q' v' (cnt + 1) (steps + 1)" .
    then show ?thesis using True v by (subst floodLoop.simps) simp
  next
    case False
    then show ?thesis by (subst floodLoop.simps) auto
  qed
qed

lemma floodFillCount_pos:
  assumes "0 < depth"
  shows "1 \<le> floodFillCount start width height obstacles depth"
proof -
  obtain q' v' where
    v: "visitNeighbors width height obstacles (neighbors start) [] (insert (key start) {}) = (q', v')"
    by (cases "visitNeighbors width height obstacles (neighbors start) [] (insert (key start) {})")
  have "floodFillCount start width height obstacles depth
        = floodLoop width height obstacles (depth * 5) q' v' 1 1"
    unfolding floodFillCount_def using assms v by (subst floodLoop.simps) simp
  then show ?thesis
    using floodLoop_ge [of 1 width height obstacles "depth * 5" q' v' 1] by simp
qed

text \<open>
  C8: for every start position, grid and obstacle set, \<open>floodFillCount\<close> terminates (the
  loop is a total function: \<open>steps\<close> grows to the limit) and returns a count of at most
  \<open>depth * 5\<close> for a depth that is not negative, at most 100 with the default depth 20,
  the only depth it is called with.
\<close>

theorem floodFillCount_bounded:
  "(0 \<le> depth \<longrightarrow> floodFillCount start width height obstacles depth \<le> depth * 5)
   \<and> floodFillCount start width height obstacles defaultDepth \<le> 100"
  using floodLoop_le [of 0 0 "depth * 5" width height obstacles "[start]" "insert (key start) {}"]
        floodLoop_le [of 0 0 "20 * 5" width height obstacles "[start]" "insert (key start) {}"]
  by (simp add: floodFillCount_def defaultDepth_def)

theorem floodFillCount_bounded_witness:
  "(0::int) \<le> 20 \<and> floodFillCount \<lparr>cx = 0, cy = 0\<rparr> 2 2 {(1, 1)} 20 = 3
   \<and> floodFillCount \<lparr>cx = 0, cy = 0\<rparr> 2 2 {(1, 1)} 20 \<le> 20 * 5"
  using floodFillCount_bounded [of 20 "\<lparr>cx = 0, cy = 0\<rparr>" 2 2 "{(1, 1)}"]
  by (simp add: floodFillCount_def floodLoop.simps neighbors_def key_def)

section \<open>The AI move\<close>

lemma key_eq_iff: "key a = key b \<longleftrightarrow> a = (b::Coordinate)"
  by (auto simp: key_def)

lemma fold_insert_key: "fold (\<lambda>t acc. insert (key t) acc) tr obs = key ` set tr \<union> obs"
  by (induction tr arbitrary: obs) auto

lemma addPlayer_eq: "addPlayer p obs = insert (key (head p)) (key ` set (trail p)) \<union> obs"
  by (simp add: addPlayer_def fold_insert_key)

lemma fold_addPlayer:
  "fold addPlayer ps obs = (\<Union>p \<in> set ps. insert (key (head p)) (key ` set (trail p))) \<union> obs"
  by (induction ps arbitrary: obs) (auto simp: addPlayer_eq)

lemma buildObstacles_iff:
  "key pos \<in> buildObstacles ps \<longleftrightarrow> (\<exists>p \<in> set ps. pos = head p \<or> pos \<in> set (trail p))"
  by (auto simp: buildObstacles_def fold_addPlayer key_eq_iff)

lemma lethal_iff: "lethal pos width height (buildObstacles ps) \<longleftrightarrow> \<not> survivable pos width height ps"
  by (auto simp: lethal_def survivable_def buildObstacles_iff)

lemma chooseMove_keeps_safe:
  "\<not> lethal (getNextPosition h best) width height obs \<Longrightarrow>
   \<not> lethal (getNextPosition h (chooseMove h width height obs moves best maxSpace)) width height obs"
  by (induction moves arbitrary: best maxSpace) (auto simp: Let_def)

lemma chooseMove_finds_safe:
  "maxSpace < 1 \<Longrightarrow> \<exists>m \<in> set moves. \<not> lethal (getNextPosition h m) width height obs \<Longrightarrow>
   \<not> lethal (getNextPosition h (chooseMove h width height obs moves best maxSpace)) width height obs"
proof (induction moves arbitrary: best maxSpace)
  case Nil
  then show ?case by simp
next
  case (Cons m moves)
  show ?case
  proof (cases "lethal (getNextPosition h m) width height obs")
    case True
    with Cons.prems have "\<exists>m \<in> set moves. \<not> lethal (getNextPosition h m) width height obs" by auto
    with Cons.IH [OF Cons.prems(1)] True show ?thesis by simp
  next
    case False
    have "1 \<le> floodFillCount (getNextPosition h m) width height obs defaultDepth"
      by (rule floodFillCount_pos) (simp add: defaultDepth_def)
    with Cons.prems(1) have "floodFillCount (getNextPosition h m) width height obs defaultDepth > maxSpace"
      by simp
    with False show ?thesis by (simp add: chooseMove_keeps_safe)
  qed
qed

lemma chooseMove_all_lethal:
  "\<forall>m \<in> set moves. lethal (getNextPosition h m) width height obs \<Longrightarrow>
   chooseMove h width height obs moves best maxSpace = best"
  by (induction moves arbitrary: best maxSpace) auto

lemma set_shuffled:
  assumes "isShuffle perm" and "length moves = 3"
  shows "set (shuffled perm moves) = set moves"
proof -
  from assms(1) have "set perm = {0, 1, 2}"
    unfolding isShuffle_def by (metis list.simps(15) empty_set mset_eq_setD)
  moreover obtain a b c where "moves = [a, b, c]"
    using assms(2) by (auto simp: length_Suc_conv numeral_3_eq_3)
  ultimately show ?thesis by (auto simp: shuffled_def)
qed

text \<open>The candidates are the current direction, its left turn and its right turn.\<close>

lemma possibleMoves_table:
  "possibleMoves UP = [UP, LEFT, RIGHT]" "possibleMoves RIGHT = [RIGHT, UP, DOWN]"
  "possibleMoves DOWN = [DOWN, RIGHT, LEFT]" "possibleMoves LEFT = [LEFT, DOWN, UP]"
  by (simp_all add: possibleMoves_def numDir_def)

text \<open>
  C1: the shuffle being a permutation of the three candidates (straight, left, right):
  if at least one candidate leads to a position that is in bounds and is neither a trail
  cell nor a head of any player, \<open>getAIMove\<close> returns a direction whose next position is
  such a position; if all three candidates are immediately lethal it returns the current
  direction.
\<close>

theorem getAIMove_safe:
  assumes "isShuffle perm"
  shows "if \<exists>m \<in> set (possibleMoves (direction aiPlayer)).
              survivable (getNextPosition (head aiPlayer) m) width height ps
         then survivable (getNextPosition (head aiPlayer) (getAIMove perm aiPlayer ps width height))
                width height ps
         else getAIMove perm aiPlayer ps width height = direction aiPlayer"
proof -
  have s: "set (shuffled perm (possibleMoves (direction aiPlayer))) = set (possibleMoves (direction aiPlayer))"
    using assms by (rule set_shuffled) (simp add: possibleMoves_def)
  show ?thesis
  proof (cases "\<exists>m \<in> set (possibleMoves (direction aiPlayer)).
              survivable (getNextPosition (head aiPlayer) m) width height ps")
    case True
    then have "\<exists>m \<in> set (shuffled perm (possibleMoves (direction aiPlayer))).
       \<not> lethal (getNextPosition (head aiPlayer) m) width height (buildObstacles ps)"
      by (simp add: s lethal_iff)
    from chooseMove_finds_safe [OF _ this, of "- 1" "direction aiPlayer"] True
    show ?thesis by (simp add: getAIMove_def lethal_iff)
  next
    case False
    then have "\<forall>m \<in> set (shuffled perm (possibleMoves (direction aiPlayer))).
       lethal (getNextPosition (head aiPlayer) m) width height (buildObstacles ps)"
      by (simp add: s lethal_iff)
    from chooseMove_all_lethal [OF this] False
    show ?thesis by (simp add: getAIMove_def)
  qed
qed

theorem getAIMove_safe_witness:
  "isShuffle [2, 0, 1]
   \<and> survivable (getNextPosition (head cornerPlayer) (getAIMove [2, 0, 1] cornerPlayer [cornerPlayer] 3 3))
        3 3 [cornerPlayer]
   \<and> getAIMove [2, 0, 1] trappedPlayer [trappedPlayer] 2 1 = UP"
  using getAIMove_safe [of "[2, 0, 1]" cornerPlayer 3 3 "[cornerPlayer]"]
        getAIMove_safe [of "[2, 0, 1]" trappedPlayer 2 1 "[trappedPlayer]"]
  by (simp add: isShuffle_def possibleMoves_def numDir_def survivable_def cornerPlayer_def
      trappedPlayer_def)

section \<open>One tick\<close>

lemma sameBody_refl [simp]: "sameBody a a"
  by (simp add: sameBody_def)

lemma sameBody_refl_list [simp]: "list_all2 sameBody ps ps"
  by (simp add: list_all2_refl)

lemma applyQueue_sameBody: "applyQueue p q = Inr (p', q') \<Longrightarrow> sameBody p' p"
  by (auto simp: applyQueue_def sameBody_def split: option.splits if_splits)

lemma applyAI_sameBody [simp]: "sameBody (applyAI m cfg perm p ps) p"
  by (simp add: applyAI_def sameBody_def Let_def)

lemma sameBody_trans: "sameBody a b \<Longrightarrow> sameBody b c \<Longrightarrow> sameBody a c"
  by (simp add: sameBody_def)

lemma processInputs_sameBody:
  "processInputs m cfg sh done todo q = Inr (ps, q') \<Longrightarrow>
   \<exists>ps'. ps = done @ ps' \<and> list_all2 sameBody ps' todo"
proof (induction todo arbitrary: "done" q)
  case Nil
  then show ?case by simp
next
  case (Cons p rest)
  show ?case
  proof (cases "isDead p")
    case True
    with Cons.prems have "processInputs m cfg sh (done @ [p]) rest q = Inr (ps, q')" by simp
    from Cons.IH [OF this] show ?thesis by auto
  next
    case False
    with Cons.prems obtain p' q1 where a: "applyQueue p q = Inr (p', q1)"
      and r: "processInputs m cfg sh (done @ [applyAI m cfg (sh (length done)) p' (done @ p' # rest)]) rest q1 = Inr (ps, q')"
      by (auto split: sum.splits)
    from Cons.IH [OF r] obtain ps' where
      "ps = (done @ [applyAI m cfg (sh (length done)) p' (done @ p' # rest)]) @ ps'" "list_all2 sameBody ps' rest"
      by blast
    moreover have "sameBody (applyAI m cfg (sh (length done)) p' (done @ p' # rest)) p"
      using applyAI_sameBody applyQueue_sameBody [OF a] sameBody_trans by blast
    ultimately show ?thesis by simp
  qed
qed

lemma processInputs_returns:
  "\<forall>p \<in> set todo. \<not> isDead p \<longrightarrow> pid p \<in> dom q \<Longrightarrow>
   \<exists>ps q'. processInputs m cfg sh done todo q = Inr (ps, q')"
proof (induction todo arbitrary: "done" q)
  case Nil
  then show ?case by simp
next
  case (Cons p rest)
  show ?case
  proof (cases "isDead p")
    case True
    with Cons show ?thesis by simp
  next
    case False
    with Cons.prems obtain qu where qu: "q (pid p) = Some qu" by auto
    obtain p' q1 where a: "applyQueue p q = Inr (p', q1)" and d: "dom q1 = dom q"
      using qu by (cases "qu = []") (auto simp: applyQueue_def)
    from Cons.prems d have "\<forall>p \<in> set rest. \<not> isDead p \<longrightarrow> pid p \<in> dom q1" by simp
    from Cons.IH [OF this] a False show ?thesis by simp
  qed
qed
lemma markDead_length [simp]: "length (markDead i ps) = length ps"
  by (induction ps) auto

lemma applyDeaths_length [simp]: "length (applyDeaths ds ps) = length ps"
  unfolding applyDeaths_def by (induction ds arbitrary: ps) auto
lemma sameButDead_refl [simp]: "sameButDead a a"
  by (simp add: sameButDead_def)

lemma sameButDead_trans: "sameButDead a b \<Longrightarrow> sameButDead b c \<Longrightarrow> sameButDead a c"
  by (auto simp: sameButDead_def)

lemma markDead_same: "list_all2 sameButDead (markDead i ps) ps"
  by (induction ps) (auto simp: list_all2_refl sameButDead_def)

lemma applyDeaths_same: "list_all2 sameButDead (applyDeaths ds ps) ps"
  unfolding applyDeaths_def
proof (induction ds arbitrary: ps)
  case Nil
  then show ?case by (simp add: list_all2_refl)
next
  case (Cons d ds)
  have "list_all2 sameButDead (fold markDead ds (markDead d ps)) (markDead d ps)" by (rule Cons.IH)
  from list_all2_trans [OF _ this markDead_same] sameButDead_trans show ?case by auto
qed

lemma applyDeaths_nth:
  "i < length ps \<Longrightarrow> sameButDead (applyDeaths ds ps ! i) (ps ! i)"
  using applyDeaths_same [of ds ps] by (simp add: list_all2_conv_all_nth)

lemma markDead_pids [simp]: "map pid (markDead d ps) = map pid ps"
  by (induction ps) auto

lemma markDead_marks:
  "i < length ps \<Longrightarrow> distinct (map pid ps) \<Longrightarrow> isDead (markDead (pid (ps ! i)) ps ! i)"
proof (induction ps arbitrary: i)
  case Nil
  then show ?case by simp
next
  case (Cons p ps)
  then show ?case by (cases i) auto
qed

lemma applyDeaths_marks:
  "i < length ps \<Longrightarrow> distinct (map pid ps) \<Longrightarrow> pid (ps ! i) \<in> set ds \<Longrightarrow>
   isDead (applyDeaths ds ps ! i)"
proof (induction ds arbitrary: ps)
  case Nil
  then show ?case by simp
next
  case (Cons d ds)
  have step: "applyDeaths (d # ds) ps = applyDeaths ds (markDead d ps)"
    by (simp add: applyDeaths_def)
  have len: "i < length (markDead d ps)" using Cons.prems(1) by simp
  have pids: "pid (markDead d ps ! i) = pid (ps ! i)"
    using Cons.prems(1) by (metis markDead_pids length_map nth_map markDead_length)
  show ?case
  proof (cases "d = pid (ps ! i)")
    case True
    with markDead_marks [OF Cons.prems(1,2)] have "isDead (markDead d ps ! i)" by simp
    with applyDeaths_nth [OF len, of ds] show ?thesis
      by (simp add: step sameButDead_def)
  next
    case False
    with Cons.prems(3) have "pid (markDead d ps ! i) \<in> set ds" by (simp add: pids)
    from Cons.IH [OF len _ this] Cons.prems(2) show ?thesis by (simp add: step)
  qed
qed

lemma set_pushNew [simp]: "set (pushNew i ds) = insert i (set ds)"
  by (auto simp: pushNew_def)

lemma walkerHits_mono: "set ds \<subseteq> set (walkerHits p ws ds)"
proof (induction ws arbitrary: ds)
  case Nil
  then show ?case by simp
next
  case (Cons w ws)
  have "set ds \<subseteq> set (pushNew (pid p) ds)" by auto
  with Cons.IH [of "pushNew (pid p) ds"] Cons.IH [of ds] show ?case
    by (cases "cx (head p) = cx (position w) \<and> cy (head p) = cy (position w)") auto
qed

lemma headToHead_mono: "set ds \<subseteq> set (headToHead p ps ds)"
  by (auto simp: headToHead_def split: option.splits)

lemma checkPlayer_mono: "set ds \<subseteq> set (checkPlayer cfg ps ws p ds)"
proof (cases "isDead p")
  case True
  then show ?thesis by (simp add: checkPlayer_def)
next
  case False
  let ?d1 = "if checkCollision (head p) (gridWidth cfg) (gridHeight cfg) ps then ds @ [pid p] else ds"
  have "set ds \<subseteq> set ?d1" by auto
  also have "\<dots> \<subseteq> set (walkerHits p ws ?d1)" by (rule walkerHits_mono)
  also have "\<dots> \<subseteq> set (headToHead p ps (walkerHits p ws ?d1))" by (rule headToHead_mono)
  finally show ?thesis using False by (simp add: checkPlayer_def)
qed

lemma checkPlayer_collision:
  assumes "\<not> isDead p" "checkCollision (head p) (gridWidth cfg) (gridHeight cfg) ps"
  shows "pid p \<in> set (checkPlayer cfg ps ws p ds)"
proof -
  have "pid p \<in> set (ds @ [pid p])" by simp
  also have "\<dots> \<subseteq> set (walkerHits p ws (ds @ [pid p]))" by (rule walkerHits_mono)
  also have "\<dots> \<subseteq> set (headToHead p ps (walkerHits p ws (ds @ [pid p])))" by (rule headToHead_mono)
  finally show ?thesis using assms by (simp add: checkPlayer_def)
qed

lemma fold_checkPlayer_mono: "set ds \<subseteq> set (fold (checkPlayer cfg ps ws) todo ds)"
proof (induction todo arbitrary: ds)
  case Nil
  then show ?case by simp
next
  case (Cons p todo)
  from checkPlayer_mono [of ds cfg ps ws p] Cons.IH [of "checkPlayer cfg ps ws p ds"]
  show ?case by auto
qed

lemma fold_checkPlayer_collision:
  "p \<in> set todo \<Longrightarrow> \<not> isDead p \<Longrightarrow> checkCollision (head p) (gridWidth cfg) (gridHeight cfg) ps \<Longrightarrow>
   pid p \<in> set (fold (checkPlayer cfg ps ws) todo ds)"
proof (induction todo arbitrary: ds)
  case Nil
  then show ?case by simp
next
  case (Cons a todo)
  show ?case
  proof (cases "p = a")
    case True
    with checkPlayer_collision [OF Cons.prems(2,3), of ws ds]
      fold_checkPlayer_mono [of "checkPlayer cfg ps ws a ds" cfg ps ws todo]
    show ?thesis by auto
  next
    case False
    with Cons show ?thesis by simp
  qed
qed

lemma collectDeaths_collision:
  "p \<in> set ps \<Longrightarrow> \<not> isDead p \<Longrightarrow> checkCollision (head p) (gridWidth cfg) (gridHeight cfg) ps \<Longrightarrow>
   pid p \<in> set (collectDeaths cfg ps ws)"
  unfolding collectDeaths_def by (rule fold_checkPlayer_collision)

lemma checkWin_fields [simp]:
  "players (checkWin g) = players g" "walkers (checkWin g) = walkers g"
  "inputQueue (checkWin g) = inputQueue g" "config (checkWin g) = config g" "mode (checkWin g) = mode g"
  by (simp_all add: checkWin_def Let_def)

lemma updateGame_over: "isGameOver g \<Longrightarrow> updateGame rnd g = Inr g"
  by (simp add: updateGame_def)

lemma updateGame_tick:
  assumes "\<not> isGameOver g" and "updateGame rnd g = Inr g'"
  shows "\<exists>ps1 q. processInputs (mode g) (config g) (aiShuffle rnd) [] (players g) (inputQueue g) = Inr (ps1, q)
           \<and> g' = checkWin (g\<lparr>players := applyDeaths
                      (collectDeaths (config g) (map movePlayer ps1) (moveWalkers (config g) (walkerRand rnd) (walkers g)))
                      (map movePlayer ps1),
                    walkers := moveWalkers (config g) (walkerRand rnd) (walkers g), inputQueue := q\<rparr>)"
  using assms by (auto simp: updateGame_def Let_def split: sum.splits)

lemma updateGame_returns:
  assumes "queuesReady g"
  shows "\<exists>g'. updateGame rnd g = Inr g'"
proof (cases "isGameOver g")
  case True
  then show ?thesis by (simp add: updateGame_def)
next
  case False
  from assms have "\<forall>p \<in> set (players g). \<not> isDead p \<longrightarrow> pid p \<in> dom (inputQueue g)"
    by (auto simp: queuesReady_def)
  from processInputs_returns [OF this, of "mode g" "config g" "aiShuffle rnd" "[]"]
  show ?thesis using False by (auto simp: updateGame_def Let_def)
qed
lemma tick_players:
  assumes "\<not> isGameOver g" and "updateGame rnd g = Inr g'"
  obtains ps1 where
    "list_all2 sameBody ps1 (players g)"
    "players g' = applyDeaths (collectDeaths (config g) (map movePlayer ps1) (walkers g')) (map movePlayer ps1)"
    "walkers g' = moveWalkers (config g) (walkerRand rnd) (walkers g)"
proof -
  from updateGame_tick [OF assms] obtain ps1 q where
    p: "processInputs (mode g) (config g) (aiShuffle rnd) [] (players g) (inputQueue g) = Inr (ps1, q)"
    and g': "g' = checkWin (g\<lparr>players := applyDeaths
                      (collectDeaths (config g) (map movePlayer ps1) (moveWalkers (config g) (walkerRand rnd) (walkers g)))
                      (map movePlayer ps1),
                    walkers := moveWalkers (config g) (walkerRand rnd) (walkers g), inputQueue := q\<rparr>)"
    by blast
  from processInputs_sameBody [OF p] have "list_all2 sameBody ps1 (players g)" by simp
  then show ?thesis using g' that by simp
qed

lemma tick_length:
  assumes "\<not> isGameOver g" and "updateGame rnd g = Inr g'"
  shows "length (players g') = length (players g)"
  using tick_players [OF assms] by (metis applyDeaths_length length_map list_all2_lengthD)

text \<open>What one tick does to the player at index \<open>i\<close>, up to its direction.\<close>
lemma tick_player:
  assumes "\<not> isGameOver g" and "updateGame rnd g = Inr g'" and "i < length (players g)"
  shows "pid (players g' ! i) = pid (players g ! i)
     \<and> (isDead (players g ! i) \<longrightarrow> isDead (players g' ! i) \<and> trail (players g' ! i) = trail (players g ! i)
            \<and> head (players g' ! i) = head (players g ! i))
     \<and> (\<not> isDead (players g ! i) \<longrightarrow> trail (players g' ! i) = trail (players g ! i) @ [head (players g ! i)])"
proof -
  from tick_players [OF assms(1,2)] obtain ps1 where
    s: "list_all2 sameBody ps1 (players g)" and
    p: "players g' = applyDeaths (collectDeaths (config g) (map movePlayer ps1) (walkers g')) (map movePlayer ps1)"
    by blast
  from s assms(3) have len: "i < length ps1" and b: "sameBody (ps1 ! i) (players g ! i)"
    by (simp_all add: list_all2_conv_all_nth)
  from len have "sameButDead (players g' ! i) (movePlayer (ps1 ! i))"
    using applyDeaths_nth [of i "map movePlayer ps1"] by (simp add: p)
  with b show ?thesis by (auto simp: sameButDead_def sameBody_def movePlayer_def)
qed

text \<open>
  C6: in a tick of a match that is not over (every living player having its input queue),
  a player that is alive at the start of the tick has its head of that moment appended to
  its trail, which so grows by exactly 1; a player that is dead at the start keeps its
  trail and its head, and stays dead.
\<close>

theorem trail_monotone:
  assumes "\<not> isGameOver g" and "queuesReady g" and "i < length (players g)"
  shows "\<exists>g'. updateGame rnd g = Inr g' \<and> length (players g') = length (players g)
     \<and> (if isDead (players g ! i)
        then trail (players g' ! i) = trail (players g ! i) \<and> head (players g' ! i) = head (players g ! i)
             \<and> isDead (players g' ! i)
        else trail (players g' ! i) = trail (players g ! i) @ [head (players g ! i)]
             \<and> length (trail (players g' ! i)) = length (trail (players g ! i)) + 1)"
proof -
  from updateGame_returns [OF assms(2)] obtain g' where r: "updateGame rnd g = Inr g'" by blast
  from tick_player [OF assms(1) r assms(3)] tick_length [OF assms(1) r] r
  show ?thesis by auto
qed

theorem trail_monotone_witness:
  "\<not> isGameOver swapGame \<and> queuesReady swapGame \<and> (0::nat) < length (players swapGame)
   \<and> (\<exists>g'. updateGame noRandom swapGame = Inr g'
         \<and> length (trail (players g' ! 0)) = length (trail (players swapGame ! 0)) + 1)"
proof -
  have h: "\<not> isGameOver swapGame" "queuesReady swapGame" "0 < length (players swapGame)"
    by (simp_all add: swapGame_def queuesReady_def)
  have "\<not> isDead (players swapGame ! 0)" by (simp add: swapGame_def)
  with trail_monotone [OF h, of noRandom] h show ?thesis by auto
qed

lemma runs_into_trail:
  assumes "\<not> isGameOver g" and "updateGame rnd g = Inr g'" and "distinct (map pid (players g))"
    and "i < length (players g)" and "j < length (players g)"
    and "\<not> isDead (players g ! i)" and "\<not> isDead (players g ! j)"
    and "head (players g' ! i) = head (players g ! j)"
  shows "isDead (players g' ! i)"
proof -
  from tick_players [OF assms(1,2)] obtain ps1 where
    s: "list_all2 sameBody ps1 (players g)" and
    p: "players g' = applyDeaths (collectDeaths (config g) (map movePlayer ps1) (walkers g')) (map movePlayer ps1)"
    by blast
  let ?ps3 = "map movePlayer ps1"
  from s have len: "length ps1 = length (players g)" by (rule list_all2_lengthD)
  from s assms(4,5) have bi: "sameBody (ps1 ! i) (players g ! i)" and bj: "sameBody (ps1 ! j) (players g ! j)"
    by (simp_all add: list_all2_conv_all_nth)
  have i3: "i < length ?ps3" and j3: "j < length ?ps3" using assms(4,5) len by simp_all
  have "sameButDead (players g' ! i) (?ps3 ! i)" using applyDeaths_nth [OF i3] by (simp add: p)
  then have h: "head (?ps3 ! i) = head (players g ! j)" using assms(8) by (simp add: sameButDead_def)
  have "head (players g ! j) \<in> set (trail (?ps3 ! j))"
    using bj assms(5,7) len by (simp add: movePlayer_def sameBody_def)
  moreover have "?ps3 ! j \<in> set ?ps3" using j3 by (rule nth_mem)
  ultimately have c: "checkCollision (head (?ps3 ! i)) (gridWidth (config g)) (gridHeight (config g)) ?ps3"
    unfolding checkCollision_def hitsAnyTrail_iff h by auto
  have alive: "\<not> isDead (?ps3 ! i)"
    using bi assms(4,6) len by (simp add: movePlayer_def sameBody_def)
  have "?ps3 ! i \<in> set ?ps3" using i3 by (rule nth_mem)
  from collectDeaths_collision [OF this alive c]
  have d: "pid (?ps3 ! i) \<in> set (collectDeaths (config g) ?ps3 (walkers g'))" .
  have "map pid ?ps3 = map pid (players g)"
    using s by (auto simp: list_all2_conv_all_nth sameBody_def movePlayer_def intro!: nth_equalityI)
  with assms(3) have "distinct (map pid ?ps3)" by simp
  from applyDeaths_marks [OF i3 this d] show ?thesis by (simp add: p)
qed

lemma swap_tick: "updateGame noRandom swapGame = Inr swapEnd"
  by (simp add: updateGame_def swapGame_def swapEnd_def noRandom_def applyQueue_def applyAI_def
      moveWalkers_def movePlayer_def collectDeaths_def checkPlayer_def checkCollision_def
      headToHead_def pushNew_def applyDeaths_def checkWin_def)

text \<open>
  C10: if in one tick two living players (of a list with distinct ids) exchange head
  positions, each head after the move being the head of the other before the move, both
  are dead after that tick: the head of each before the move is in its trail after it.
\<close>

theorem swap_kills_both:
  assumes "\<not> isGameOver g" and "updateGame rnd g = Inr g'" and "distinct (map pid (players g))"
    and "i < length (players g)" and "j < length (players g)"
    and "\<not> isDead (players g ! i)" and "\<not> isDead (players g ! j)"
    and "head (players g' ! i) = head (players g ! j)"
    and "head (players g' ! j) = head (players g ! i)"
  shows "isDead (players g' ! i) \<and> isDead (players g' ! j)
     \<and> head (players g ! i) \<in> set (trail (players g' ! i))
     \<and> head (players g ! j) \<in> set (trail (players g' ! j))"
  using runs_into_trail [OF assms(1,2,3,4,5,6,7,8)] runs_into_trail [OF assms(1,2,3,5,4,7,6,9)]
    tick_player [OF assms(1,2,4)] tick_player [OF assms(1,2,5)] assms(6,7)
  by simp

theorem swap_kills_both_witness:
  "\<not> isGameOver swapGame \<and> updateGame noRandom swapGame = Inr swapEnd
   \<and> distinct (map pid (players swapGame))
   \<and> head (players swapEnd ! 0) = head (players swapGame ! 1)
   \<and> head (players swapEnd ! 1) = head (players swapGame ! 0)
   \<and> head (players swapEnd ! 0) \<noteq> head (players swapEnd ! 1)
   \<and> isDead (players swapEnd ! 0) \<and> isDead (players swapEnd ! 1)"
proof -
  have h: "\<not> isGameOver swapGame" "distinct (map pid (players swapGame))"
    "0 < length (players swapGame)" "1 < length (players swapGame)"
    "\<not> isDead (players swapGame ! 0)" "\<not> isDead (players swapGame ! 1)"
    "head (players swapEnd ! 0) = head (players swapGame ! 1)"
    "head (players swapEnd ! 1) = head (players swapGame ! 0)"
    "head (players swapEnd ! 0) \<noteq> head (players swapEnd ! 1)"
    by (simp_all add: swapGame_def swapEnd_def)
  from swap_kills_both [OF h(1) swap_tick h(2,3,4,5,6,7,8)] h swap_tick show ?thesis by simp
qed

section \<open>The turn queue\<close>

lemma turn_changes:
  "numDir ((dirNum d + 3) mod 4) \<noteq> d" "numDir ((dirNum d + 1) mod 4) \<noteq> d"
  "numDir ((dirNum (numDir ((dirNum d + 3) mod 4)) + 1) mod 4) = d"
  by (cases d; simp add: numDir_def)+

lemma registerTurn_first:
  assumes "inputQueue g playerId = Some []" and "liveDirection g playerId = Some d"
  shows "registerTurn g playerId TurnLeft
         = Inr (g\<lparr>inputQueue := (inputQueue g)(playerId \<mapsto> [numDir ((dirNum d + 3) mod 4)])\<rparr>)"
  using assms turn_changes(1) [of d] by (simp add: registerTurn_def)

lemma registerTurn_second:
  assumes "inputQueue g playerId = Some [e]"
  shows "registerTurn g playerId TurnRight
         = Inr (g\<lparr>inputQueue := (inputQueue g)(playerId \<mapsto> [e, numDir ((dirNum e + 1) mod 4)])\<rparr>)"
  using assms turn_changes(2) [of e] by (simp add: registerTurn_def)


text \<open>
  C3, as stated, fails: from an empty queue a LEFT request followed by a RIGHT request
  leaves two pending directions, not one. Here player 1 faces RIGHT; the queue becomes
  [UP, RIGHT].
\<close>

theorem left_then_right_counterexample:
  "inputQueue duelGame 1 = Some [] \<and> liveDirection duelGame 1 = Some RIGHT
   \<and> queueAfter duelGame 1 [TurnLeft, TurnRight] = Inr (Some [UP, RIGHT])
   \<and> queueAfter duelGame 1 [TurnLeft, TurnRight] \<noteq> queueAfter duelGame 1 [TurnLeft]
   \<and> length [UP, RIGHT] \<noteq> (1::nat)"
  by (simp add: queueAfter_def registerTurn_def duelGame_def initGame_def liveDirection_def numDir_def)


text \<open>
  C3, amended: for a player with current direction \<open>d\<close> and an empty queue, a LEFT request
  appends the left turn of \<open>d\<close>, and a following RIGHT request is compared with that
  pending direction, differs from it, and is appended too: the queue then holds two
  directions, the left turn of \<open>d\<close> and \<open>d\<close>.
\<close>

theorem left_then_right_queued:
  assumes "inputQueue g playerId = Some []" and "liveDirection g playerId = Some d"
  shows "queueAfter g playerId [TurnLeft] = Inr (Some [numDir ((dirNum d + 3) mod 4)])
     \<and> queueAfter g playerId [TurnLeft, TurnRight] = Inr (Some [numDir ((dirNum d + 3) mod 4), d])
     \<and> numDir ((dirNum d + 3) mod 4) \<noteq> d"
proof -
  let ?l = "numDir ((dirNum d + 3) mod 4)"
  let ?g1 = "g\<lparr>inputQueue := (inputQueue g)(playerId \<mapsto> [?l])\<rparr>"
  have 1: "registerTurn g playerId TurnLeft = Inr ?g1" using assms by (rule registerTurn_first)
  have "inputQueue ?g1 playerId = Some [?l]" by simp
  from registerTurn_second [OF this]
  have 2: "registerTurn ?g1 playerId TurnRight
           = Inr (?g1\<lparr>inputQueue := (inputQueue ?g1)(playerId \<mapsto> [?l, d])\<rparr>)"
    by (simp add: turn_changes(3))
  show ?thesis using turn_changes(1) [of d] by (simp add: queueAfter_def 1 2)
qed

theorem left_then_right_queued_witness:
  "inputQueue duelGame 1 = Some [] \<and> liveDirection duelGame 1 = Some RIGHT
   \<and> queueAfter duelGame 1 [TurnLeft, TurnRight] = Inr (Some [UP, RIGHT])"
proof -
  have h: "inputQueue duelGame 1 = Some []" "liveDirection duelGame 1 = Some RIGHT"
    by (simp_all add: duelGame_def initGame_def liveDirection_def)
  from left_then_right_queued [OF h] h show ?thesis by (simp add: numDir_def)
qed


section \<open>Walkers\<close>

lemma neighbors_iff: "n \<in> set (neighbors pos) \<longleftrightarrow> orthogonalNeighbor pos n"
proof -
  obtain a b where n: "n = \<lparr>cx = a, cy = b\<rparr>" by (cases n) simp
  obtain c d where p: "pos = \<lparr>cx = c, cy = d\<rparr>" by (cases pos) simp
  show ?thesis unfolding n p neighbors_def orthogonalNeighbor_def by simp arith
qed

lemma rand_index:
  assumes "0 \<le> rand" "rand < 1" "0 < n"
  shows "nat \<lfloor>rand * real n\<rfloor> < n"
proof -
  have "rand * real n < real n" using assms by simp
  then have "\<lfloor>rand * real n\<rfloor> < int n" by (simp add: floor_less_iff)
  moreover have "0 \<le> \<lfloor>rand * real n\<rfloor>" using assms by simp
  ultimately show ?thesis by linarith
qed

lemma getWalkerMove_valid:
  assumes "0 \<le> rand" "rand < 1" "\<exists>n \<in> set (neighbors pos). inGrid width height n"
  shows "getWalkerMove pos width height obs rand \<in> set (filter (inGrid width height) (neighbors pos))"
proof -
  let ?v = "filter (inGrid width height) (neighbors pos)"
  from assms(3) have "?v \<noteq> []" by (simp add: filter_empty_conv)
  then have "0 < length ?v" by simp
  from rand_index [OF assms(1,2) this]
  have "?v ! nat \<lfloor>rand * real (length ?v)\<rfloor> \<in> set ?v" by (rule nth_mem)
  moreover have "getWalkerMove pos width height obs rand = ?v ! nat \<lfloor>rand * real (length ?v)\<rfloor>"
    using \<open>?v \<noteq> []\<close> by (simp add: getWalkerMove_def Let_def)
  ultimately show ?thesis by simp
qed

lemma getWalkerMove_stuck:
  "\<not> (\<exists>n \<in> set (neighbors pos). inGrid width height n) \<Longrightarrow> getWalkerMove pos width height obs rand = pos"
  by (simp add: getWalkerMove_def Let_def filter_empty_conv)

lemma no_neighbor_iff:
  "inGrid width height pos \<Longrightarrow>
   (\<forall>n \<in> set (neighbors pos). \<not> inGrid width height n) \<longleftrightarrow> width = 1 \<and> height = 1"
  by (cases pos) (auto simp: neighbors_def inGrid_def)

lemma getWalkerMove_neighbor:
  assumes "0 \<le> rand" and "rand < 1"
  shows "if \<exists>n. orthogonalNeighbor pos n \<and> inGrid width height n
         then orthogonalNeighbor pos (getWalkerMove pos width height obs rand)
              \<and> inGrid width height (getWalkerMove pos width height obs rand)
         else getWalkerMove pos width height obs rand = pos"
proof (cases "\<exists>n \<in> set (neighbors pos). inGrid width height n")
  case True
  from getWalkerMove_valid [OF assms True, of obs] True show ?thesis
    by (auto simp: neighbors_iff)
next
  case False
  from getWalkerMove_stuck [OF False, of obs rand] False show ?thesis
    by (auto simp: neighbors_iff)
qed

lemma stuck_iff:
  "inGrid width height pos \<Longrightarrow>
   (\<nexists>n. orthogonalNeighbor pos n \<and> inGrid width height n) \<longleftrightarrow> width = 1 \<and> height = 1"
  using no_neighbor_iff [of width height pos] by (auto simp: neighbors_iff)

lemma moveWalkers_nth:
  "j < length ws \<Longrightarrow> moveWalkers cfg rnd ws ! j = stepWalker cfg (rnd j) (ws ! j)"
  by (simp add: moveWalkers_def)

lemma tick_walkers:
  assumes "\<not> isGameOver g" and "updateGame rnd g = Inr g'"
  shows "length (walkers g') = length (walkers g)"
    and "j < length (walkers g) \<Longrightarrow>
         walkers g' ! j = stepWalker (config g) (walkerRand rnd j) (walkers g ! j)"
proof -
  from tick_players [OF assms] have w: "walkers g' = moveWalkers (config g) (walkerRand rnd) (walkers g)"
    by blast
  show "length (walkers g') = length (walkers g)" by (simp add: w moveWalkers_def)
  show "j < length (walkers g) \<Longrightarrow>
         walkers g' ! j = stepWalker (config g) (walkerRand rnd j) (walkers g ! j)"
    by (simp add: w moveWalkers_nth)
qed


text \<open>
  C9: with \<open>Math.random()\<close> in [0, 1), \<open>getWalkerMove\<close> returns an in-bounds orthogonal
  neighbour of the current position if there is one, and the current position otherwise;
  for a position inside the grid there is none exactly on the 1 x 1 grid. In a tick the
  position of a walker is replaced by the result of \<open>getWalkerMove\<close> exactly when its
  incremented timer reaches \<open>WALKER_SPEED_MOD\<close>, and the timer is then 0; otherwise the
  position stays and the timer is incremented.
\<close>

theorem walker_move:
  assumes "0 \<le> rand" and "rand < 1" and "\<not> isGameOver g" and "queuesReady g"
  shows "(if \<exists>n. orthogonalNeighbor pos n \<and> inGrid width height n
          then orthogonalNeighbor pos (getWalkerMove pos width height obs rand)
               \<and> inGrid width height (getWalkerMove pos width height obs rand)
          else getWalkerMove pos width height obs rand = pos)
     \<and> (inGrid width height pos \<longrightarrow>
          ((\<nexists>n. orthogonalNeighbor pos n \<and> inGrid width height n) \<longleftrightarrow> width = 1 \<and> height = 1))
     \<and> (\<exists>g'. updateGame rnd g = Inr g' \<and> length (walkers g') = length (walkers g)
          \<and> (\<forall>j < length (walkers g).
                if moveTimer (walkers g ! j) + 1 \<ge> WALKER_SPEED_MOD
                then moveTimer (walkers g' ! j) = 0
                     \<and> position (walkers g' ! j)
                         = getWalkerMove (position (walkers g ! j)) (gridWidth (config g))
                             (gridHeight (config g)) {} (walkerRand rnd j)
                else moveTimer (walkers g' ! j) = moveTimer (walkers g ! j) + 1
                     \<and> position (walkers g' ! j) = position (walkers g ! j)))"
proof -
  from updateGame_returns [OF assms(4)] obtain g' where r: "updateGame rnd g = Inr g'" by blast
  have "\<forall>j < length (walkers g).
          if moveTimer (walkers g ! j) + 1 \<ge> WALKER_SPEED_MOD
          then moveTimer (walkers g' ! j) = 0
               \<and> position (walkers g' ! j)
                   = getWalkerMove (position (walkers g ! j)) (gridWidth (config g))
                       (gridHeight (config g)) {} (walkerRand rnd j)
          else moveTimer (walkers g' ! j) = moveTimer (walkers g ! j) + 1
               \<and> position (walkers g' ! j) = position (walkers g ! j)"
    using tick_walkers(2) [OF assms(3) r] by (simp add: stepWalker_def Let_def)
  with r tick_walkers(1) [OF assms(3) r]
  have "\<exists>g'. updateGame rnd g = Inr g' \<and> length (walkers g') = length (walkers g)
          \<and> (\<forall>j < length (walkers g).
                if moveTimer (walkers g ! j) + 1 \<ge> WALKER_SPEED_MOD
                then moveTimer (walkers g' ! j) = 0
                     \<and> position (walkers g' ! j)
                         = getWalkerMove (position (walkers g ! j)) (gridWidth (config g))
                             (gridHeight (config g)) {} (walkerRand rnd j)
                else moveTimer (walkers g' ! j) = moveTimer (walkers g ! j) + 1
                     \<and> position (walkers g' ! j) = position (walkers g ! j))"
    by blast
  with getWalkerMove_neighbor [OF assms(1,2), of pos width height obs] stuck_iff [of width height pos]
  show ?thesis by blast
qed

lemma hazard_ready: "\<not> isGameOver hazardGame" "queuesReady hazardGame"
  by (simp_all add: hazardGame_def duelGame_def initGame_def queuesReady_def)

theorem walker_move_witness:
  "(0::real) \<le> 1 / 2 \<and> (1::real) / 2 < 1 \<and> \<not> isGameOver hazardGame \<and> queuesReady hazardGame
   \<and> getWalkerMove \<lparr>cx = 0, cy = 0\<rparr> 3 3 {} (1 / 2) = \<lparr>cx = 0, cy = 1\<rparr>
   \<and> (\<exists>g'. updateGame halfRandom hazardGame = Inr g'
         \<and> map position (walkers g') = [\<lparr>cx = 0, cy = 1\<rparr>, \<lparr>cx = 30, cy = 30\<rparr>]
         \<and> map moveTimer (walkers g') = [0, 1])"
proof -
  have h: "(0::real) \<le> 1 / 2" "(1::real) / 2 < 1" by simp_all
  have w: "getWalkerMove \<lparr>cx = 0, cy = 0\<rparr> 3 3 {} (1 / 2) = \<lparr>cx = 0, cy = 1\<rparr>"
     "getWalkerMove \<lparr>cx = 0, cy = 0\<rparr> 60 40 {} (1 / 2) = \<lparr>cx = 0, cy = 1\<rparr>"
    by (simp_all add: getWalkerMove_def neighbors_def inGrid_def)
  from walker_move [OF h hazard_ready, of "\<lparr>cx = 0, cy = 0\<rparr>" 3 3 "{}" halfRandom]
  obtain g' where g': "updateGame halfRandom hazardGame = Inr g'"
    "length (walkers g') = length (walkers hazardGame)"
    "\<forall>j < length (walkers hazardGame).
                if moveTimer (walkers hazardGame ! j) + 1 \<ge> WALKER_SPEED_MOD
                then moveTimer (walkers g' ! j) = 0
                     \<and> position (walkers g' ! j)
                         = getWalkerMove (position (walkers hazardGame ! j)) (gridWidth (config hazardGame))
                             (gridHeight (config hazardGame)) {} (walkerRand halfRandom j)
                else moveTimer (walkers g' ! j) = moveTimer (walkers hazardGame ! j) + 1
                     \<and> position (walkers g' ! j) = position (walkers hazardGame ! j)"
    by blast
  have l: "length (walkers hazardGame) = 2" by (simp add: hazardGame_def)
  from g'(3) have "moveTimer (walkers g' ! 0) = 0 \<and> position (walkers g' ! 0) = \<lparr>cx = 0, cy = 1\<rparr>"
    by (simp add: l hazardGame_def duelGame_def initGame_def halfRandom_def WALKER_SPEED_MOD_def w)
  moreover from g'(3) have "moveTimer (walkers g' ! 1) = 1 \<and> position (walkers g' ! 1) = \<lparr>cx = 30, cy = 30\<rparr>"
    by (simp add: l hazardGame_def duelGame_def initGame_def halfRandom_def WALKER_SPEED_MOD_def)
  moreover have "length (walkers g') = 2" using g'(2) l by simp
  then obtain a b where "walkers g' = [a, b]"
    by (auto simp: length_Suc_conv numeral_2_eq_2)
  ultimately show ?thesis using h hazard_ready w(1) g'(1) by auto
qed


section \<open>The terminal check\<close>

lemma checkWin_none:
  "filter (\<lambda>p. \<not> isDead p) (players g) = [] \<Longrightarrow>
   checkWin g = g\<lparr>isGameOver := True, winner := Some ''DRAW'', status := GAME_OVER\<rparr>"
  by (simp add: checkWin_def)

lemma checkWin_one:
  "filter (\<lambda>p. \<not> isDead p) (players g) = [w] \<Longrightarrow>
   checkWin g = g\<lparr>isGameOver := True, winner := Some (name w), status := GAME_OVER,
                  scores := addWin (pid w) (scores g)\<rparr>"
  by (simp add: checkWin_def)

lemma checkWin_many:
  "2 \<le> length (filter (\<lambda>p. \<not> isDead p) (players g)) \<Longrightarrow> checkWin g = g"
  by (auto simp: checkWin_def Let_def)

text \<open>The terminal check of a tick, on the state fields it writes.\<close>
lemma tick_terminal:
  assumes "\<not> isGameOver g" and "updateGame rnd g = Inr g'"
  shows "(filter (\<lambda>p. \<not> isDead p) (players g') = [] \<longrightarrow>
            isGameOver g' \<and> status g' = GAME_OVER \<and> winner g' = Some ''DRAW'' \<and> scores g' = scores g)
     \<and> (\<forall>w. filter (\<lambda>p. \<not> isDead p) (players g') = [w] \<longrightarrow>
            isGameOver g' \<and> status g' = GAME_OVER \<and> winner g' = Some (name w)
            \<and> scores g' = addWin (pid w) (scores g))
     \<and> (2 \<le> length (filter (\<lambda>p. \<not> isDead p) (players g')) \<longrightarrow>
            \<not> isGameOver g' \<and> status g' = status g \<and> winner g' = winner g \<and> scores g' = scores g)"
proof -
  from updateGame_tick [OF assms] obtain g1 where
    g': "g' = checkWin g1" and f: "isGameOver g1 = isGameOver g" "status g1 = status g"
      "winner g1 = winner g" "scores g1 = scores g"
    by force
  have p: "players g' = players g1" by (simp add: g')
  show ?thesis unfolding p
    using checkWin_none [of g1] checkWin_one [of g1] checkWin_many [of g1] assms(1)
    by (auto simp: g' f)
qed

lemma addWin_tally:
  "(i = 1 \<longrightarrow> p1 (addWin i s) = p1 s + 1 \<and> p2 (addWin i s) = p2 s)
   \<and> (i \<noteq> 1 \<longrightarrow> p2 (addWin i s) = p2 s + 1 \<and> p1 (addWin i s) = p1 s)"
  by (simp add: addWin_def)

lemma tick_scores:
  assumes "\<not> isGameOver g" and "updateGame rnd g = Inr g'"
  shows "(isGameOver g' \<or> scores g' = scores g)
     \<and> p1 (scores g) \<le> p1 (scores g') \<and> p2 (scores g) \<le> p2 (scores g')
     \<and> p1 (scores g') + p2 (scores g') \<le> p1 (scores g) + p2 (scores g) + 1"
proof -
  let ?alive = "filter (\<lambda>p. \<not> isDead p) (players g')"
  consider "?alive = []" | w where "?alive = [w]" | "2 \<le> length ?alive"
    by (cases ?alive rule: list.exhaust, simp, rename_tac a as, case_tac as, auto)
  then show ?thesis
  proof cases
    case 1
    with tick_terminal [OF assms] show ?thesis by simp
  next
    case 2
    with tick_terminal [OF assms] addWin_tally [of "pid w" "scores g"] show ?thesis
      by (cases "pid w = 1") auto
  next
    case 3
    with tick_terminal [OF assms] show ?thesis by simp
  qed
qed

lemma runTicks_over: "isGameOver g \<Longrightarrow> runTicks rnds g = Inr g"
  by (induction rnds) (simp_all add: updateGame_over)

lemma runTicks_scores:
  "runTicks rnds g = Inr g' \<Longrightarrow>
   p1 (scores g) \<le> p1 (scores g') \<and> p2 (scores g) \<le> p2 (scores g')
   \<and> p1 (scores g') + p2 (scores g') \<le> p1 (scores g) + p2 (scores g) + (if isGameOver g then 0 else 1)"
proof (induction rnds arbitrary: g)
  case Nil
  then show ?case by simp
next
  case (Cons rnd rnds)
  show ?case
  proof (cases "isGameOver g")
    case True
    with Cons.prems runTicks_over [OF True, of "rnd # rnds"] show ?thesis by simp
  next
    case False
    from Cons.prems obtain g1 where u: "updateGame rnd g = Inr g1" and r: "runTicks rnds g1 = Inr g'"
      by (auto split: sum.splits)
    from tick_scores [OF False u] Cons.IH [OF r] False show ?thesis
      by (cases "isGameOver g1") auto
  qed
qed


text \<open>
  C5: at the end of a tick, with no player alive the state is GAME_OVER, the winner is
  DRAW and the scores are unchanged; with exactly one player alive the state is
  GAME_OVER, the winner is that player and its tally (\<open>p1\<close> for id 1, \<open>p2\<close> otherwise) is
  incremented by 1, the other tally unchanged; with two or more alive, status, winner and
  scores are unchanged. Once the match is over no tick changes the state, and over any
  number of ticks of a match the tallies never decrease and grow by at most 1 in total.
\<close>

theorem terminal_check:
  assumes "\<not> isGameOver g" and "queuesReady g"
  shows "\<exists>g'. updateGame rnd g = Inr g'
     \<and> (filter (\<lambda>p. \<not> isDead p) (players g') = [] \<longrightarrow>
            status g' = GAME_OVER \<and> winner g' = Some ''DRAW'' \<and> scores g' = scores g)
     \<and> (\<forall>w. filter (\<lambda>p. \<not> isDead p) (players g') = [w] \<longrightarrow>
            status g' = GAME_OVER \<and> winner g' = Some (name w)
            \<and> (pid w = 1 \<longrightarrow> p1 (scores g') = p1 (scores g) + 1 \<and> p2 (scores g') = p2 (scores g))
            \<and> (pid w \<noteq> 1 \<longrightarrow> p2 (scores g') = p2 (scores g) + 1 \<and> p1 (scores g') = p1 (scores g)))
     \<and> (2 \<le> length (filter (\<lambda>p. \<not> isDead p) (players g')) \<longrightarrow>
            status g' = status g \<and> winner g' = winner g \<and> scores g' = scores g \<and> \<not> isGameOver g')
     \<and> (status g' = GAME_OVER \<longrightarrow> status g = GAME_OVER \<or> isGameOver g')
     \<and> (isGameOver g' \<longrightarrow> (\<forall>rnds. runTicks rnds g' = Inr g'))
     \<and> (\<forall>rnds g''. runTicks rnds g = Inr g'' \<longrightarrow>
            p1 (scores g) \<le> p1 (scores g'') \<and> p2 (scores g) \<le> p2 (scores g'')
            \<and> p1 (scores g'') + p2 (scores g'') \<le> p1 (scores g) + p2 (scores g) + 1)"
proof -
  from updateGame_returns [OF assms(2)] obtain g' where r: "updateGame rnd g = Inr g'" by blast
  note t = tick_terminal [OF assms(1) r]
  have a: "filter (\<lambda>p. \<not> isDead p) (players g') = [] \<longrightarrow>
            status g' = GAME_OVER \<and> winner g' = Some ''DRAW'' \<and> scores g' = scores g"
    using t by simp
  have b: "\<forall>w. filter (\<lambda>p. \<not> isDead p) (players g') = [w] \<longrightarrow>
            status g' = GAME_OVER \<and> winner g' = Some (name w)
            \<and> (pid w = 1 \<longrightarrow> p1 (scores g') = p1 (scores g) + 1 \<and> p2 (scores g') = p2 (scores g))
            \<and> (pid w \<noteq> 1 \<longrightarrow> p2 (scores g') = p2 (scores g) + 1 \<and> p1 (scores g') = p1 (scores g))"
    using t addWin_tally by simp
  have c: "2 \<le> length (filter (\<lambda>p. \<not> isDead p) (players g')) \<longrightarrow>
            status g' = status g \<and> winner g' = winner g \<and> scores g' = scores g \<and> \<not> isGameOver g'"
    using t by simp
  have d: "status g' = GAME_OVER \<longrightarrow> status g = GAME_OVER \<or> isGameOver g'"
  proof -
    let ?alive = "filter (\<lambda>p. \<not> isDead p) (players g')"
    consider "?alive = []" | w where "?alive = [w]" | "2 \<le> length ?alive"
      by (cases ?alive rule: list.exhaust, simp, rename_tac a as, case_tac as, auto)
    then show ?thesis using t by cases auto
  qed
  have e: "isGameOver g' \<longrightarrow> (\<forall>rnds. runTicks rnds g' = Inr g')"
    by (simp add: runTicks_over)
  have f: "\<forall>rnds g''. runTicks rnds g = Inr g'' \<longrightarrow>
            p1 (scores g) \<le> p1 (scores g'') \<and> p2 (scores g) \<le> p2 (scores g'')
            \<and> p1 (scores g'') + p2 (scores g'') \<le> p1 (scores g) + p2 (scores g) + 1"
    using runTicks_scores assms(1) by fastforce
  from r a b c d e f show ?thesis by blast
qed


lemma solo_tick: "updateGame rnd soloGame = Inr soloEnd"
  by (simp add: updateGame_def soloGame_def soloEnd_def soloPlayer_def applyQueue_def applyAI_def
     moveWalkers_def movePlayer_def collectDeaths_def checkPlayer_def checkCollision_def headToHead_def
     applyDeaths_def checkWin_def addWin_def)

theorem terminal_check_witness:
  "\<not> isGameOver soloGame \<and> queuesReady soloGame
   \<and> (\<exists>g'. updateGame noRandom soloGame = Inr g' \<and> status g' = GAME_OVER
          \<and> winner g' = Some ''Player 1'' \<and> p1 (scores g') = 1 \<and> p2 (scores g') = 0)"
proof -
  have h: "\<not> isGameOver soloGame" "queuesReady soloGame"
    by (simp_all add: soloGame_def soloPlayer_def queuesReady_def)
  from terminal_check [OF h, of noRandom] obtain g' where
    g: "updateGame noRandom soloGame = Inr g'"
       "\<forall>w. filter (\<lambda>p. \<not> isDead p) (players g') = [w] \<longrightarrow>
            status g' = GAME_OVER \<and> winner g' = Some (name w)
            \<and> (pid w = 1 \<longrightarrow> p1 (scores g') = p1 (scores soloGame) + 1 \<and> p2 (scores g') = p2 (scores soloGame))
            \<and> (pid w \<noteq> 1 \<longrightarrow> p2 (scores g') = p2 (scores soloGame) + 1 \<and> p1 (scores g') = p1 (scores soloGame))"
    by blast
  from g(1) have e: "g' = soloEnd" by (simp add: solo_tick)
  have "filter (\<lambda>p. \<not> isDead p) (players g') = [hd (players soloEnd)]"
    "pid (hd (players soloEnd)) = 1" "name (hd (players soloEnd)) = ''Player 1''"
    "p1 (scores soloGame) = 0" "p2 (scores soloGame) = 0"
    by (simp_all add: e soloEnd_def soloGame_def soloPlayer_def)
  with g h show ?thesis by auto
qed

section \<open>The single-player scenario\<close>

lemma soloEnd_over: "isGameOver soloEnd"
  by (simp add: soloEnd_def)

lemmas tick_defs = updateGame_def applyQueue_def applyAI_def
     moveWalkers_def movePlayer_def collectDeaths_def checkPlayer_def checkCollision_def headToHead_def
     pushNew_def applyDeaths_def checkWin_def addWin_def

lemma pair_ticks: "runTicks [noRandom, noRandom, noRandom, noRandom, noRandom] pairGame = Inr pairEnd"
  by (simp add: pairGame_def pairEnd_def soloGame_def soloPlayer_def noRandom_def tick_defs)


text \<open>
  C2, as stated, fails: with a single player at (5,5) facing RIGHT on the 10 x 10 grid, the
  state after five ticks has the head at (6,5), not (10,5); the player is alive and its
  trail has length 2.
\<close>

theorem solo_five_ticks_counterexample:
  "runTicks [noRandom, noRandom, noRandom, noRandom, noRandom] soloGame = Inr soloEnd
   \<and> head (players soloEnd ! 0) = \<lparr>cx = 6, cy = 5\<rparr>
   \<and> head (players soloEnd ! 0) \<noteq> \<lparr>cx = 10, cy = 5\<rparr>
   \<and> \<not> isDead (players soloEnd ! 0)
   \<and> length (trail (players soloEnd ! 0)) = 2"
  by (simp add: solo_tick runTicks_over [OF soloEnd_over]) (simp add: soloEnd_def soloGame_def soloPlayer_def)


text \<open>
  C2, amended: on a 10 x 10 grid with a single player at (5,5) facing RIGHT whose trail
  starts as [(5,5)], no walkers and no turn inputs, the first tick moves the head to
  (6,5) and, one player being alive, ends the match with that player as winner; every
  later tick changes nothing, so that after any positive number of ticks the head is
  (6,5), the player is alive and its trail has length 2. With a second player that stays
  alive, five ticks bring the head of the first to (10,5), which is out of bounds; it is
  dead and its trail has length 6.
\<close>

theorem solo_match_ends_at_once:
  assumes "rnds \<noteq> []"
  shows "runTicks rnds soloGame = Inr soloEnd
     \<and> map head (players soloEnd) = [\<lparr>cx = 6, cy = 5\<rparr>]
     \<and> map isDead (players soloEnd) = [False]
     \<and> map (\<lambda>p. length (trail p)) (players soloEnd) = [2]
     \<and> status soloEnd = GAME_OVER \<and> winner soloEnd = Some ''Player 1''
     \<and> runTicks [noRandom, noRandom, noRandom, noRandom, noRandom] pairGame = Inr pairEnd
     \<and> head (players pairEnd ! 0) = \<lparr>cx = 10, cy = 5\<rparr>
     \<and> checkCollision \<lparr>cx = 10, cy = 5\<rparr> 10 10 []
     \<and> isDead (players pairEnd ! 0)
     \<and> length (trail (players pairEnd ! 0)) = 6"
proof -
  from assms obtain rnd rest where "rnds = rnd # rest" by (cases rnds) auto
  then have a: "runTicks rnds soloGame = Inr soloEnd"
    by (simp add: solo_tick runTicks_over [OF soloEnd_over])
  have b: "map head (players soloEnd) = [\<lparr>cx = 6, cy = 5\<rparr>]"
    "map isDead (players soloEnd) = [False]"
    "map (\<lambda>p. length (trail p)) (players soloEnd) = [2]"
    "status soloEnd = GAME_OVER" "winner soloEnd = Some ''Player 1''"
    by (simp_all add: soloEnd_def soloGame_def soloPlayer_def)
  have c: "head (players pairEnd ! 0) = \<lparr>cx = 10, cy = 5\<rparr>"
    "checkCollision \<lparr>cx = 10, cy = 5\<rparr> 10 10 []"
    "isDead (players pairEnd ! 0)" "length (trail (players pairEnd ! 0)) = 6"
    by (simp_all add: pairEnd_def soloPlayer_def checkCollision_def)
  from a b c pair_ticks show ?thesis by blast
qed

theorem solo_match_ends_at_once_witness:
  "[noRandom, noRandom, noRandom, noRandom, noRandom] \<noteq> []
   \<and> runTicks [noRandom, noRandom, noRandom, noRandom, noRandom] soloGame = Inr soloEnd"
  using solo_match_ends_at_once [of "[noRandom, noRandom, noRandom, noRandom, noRandom]"] by simp


section \<open>Step 1 of a tick\<close>

lemma sameBody_sym: "sameBody a b \<Longrightarrow> sameBody b a"
  by (simp add: sameBody_def)

lemma sameBody_list_trans:
  "list_all2 sameBody as bs \<Longrightarrow> list_all2 sameBody bs cs \<Longrightarrow> list_all2 sameBody as cs"
  by (erule list_all2_trans [rotated], assumption, erule sameBody_trans)

lemma buildObstacles_eq:
  "buildObstacles ps = (\<Union>p \<in> set ps. insert (key (head p)) (key ` set (trail p)))"
  by (simp add: buildObstacles_def fold_addPlayer)

lemma buildObstacles_sameBody:
  assumes "list_all2 sameBody ps ps'"
  shows "buildObstacles ps = buildObstacles ps'"
proof -
  have "(\<lambda>p. insert (key (head p)) (key ` set (trail p))) ` set ps
        = (\<lambda>p. insert (key (head p)) (key ` set (trail p))) ` set ps'"
    using assms
  proof (induction rule: list_all2_induct)
    case Nil
    then show ?case by simp
  next
    case (Cons a as b bs)
    then show ?case by (simp add: sameBody_def)
  qed
  then show ?thesis by (simp add: buildObstacles_eq)
qed

lemma getAIMove_sameBody:
  "list_all2 sameBody ps ps' \<Longrightarrow> getAIMove perm p ps width height = getAIMove perm p ps' width height"
  by (simp add: getAIMove_def buildObstacles_sameBody)

lemma applyAI_direction:
  "direction (applyAI m cfg perm p ps)
   = (if m = PVE \<and> pid p = 2 then getAIMove perm p ps (gridWidth cfg) (gridHeight cfg) else direction p)"
  by (simp add: applyAI_def Let_def)

lemma applyQueue_queue:
  "applyQueue p q = Inr (p', q') \<Longrightarrow> i \<noteq> pid p \<Longrightarrow> q' i = q i"
  by (auto simp: applyQueue_def split: option.splits if_splits)

lemma applyQueue_Some:
  "q (pid p) = Some qu \<Longrightarrow>
   applyQueue p q = Inr (if qu = [] then p else p\<lparr>direction := hd qu\<rparr>, q(pid p \<mapsto> tl qu))"
  by (auto simp: applyQueue_def)

lemma applyQueue_Inr:
  assumes "applyQueue p q = Inr (p', q')"
  shows "\<exists>qu. q (pid p) = Some qu \<and> p' = (if qu = [] then p else p\<lparr>direction := hd qu\<rparr>)
           \<and> q' (pid p) = Some (tl qu)"
proof (cases "q (pid p)")
  case None
  with assms show ?thesis by (simp add: applyQueue_def)
next
  case (Some qu)
  from applyQueue_Some [of q p qu, OF Some] assms
  have "p' = (if qu = [] then p else p\<lparr>direction := hd qu\<rparr>)" "q' = q(pid p \<mapsto> tl qu)"
    by simp_all
  with Some show ?thesis by simp
qed

lemma processInputs_queue:
  "processInputs m cfg sh done todo q = Inr (ps, q') \<Longrightarrow> i \<notin> pid ` set todo \<Longrightarrow> q' i = q i"
proof (induction todo arbitrary: "done" q)
  case Nil
  then show ?case by simp
next
  case (Cons p rest)
  show ?case
  proof (cases "isDead p")
    case True
    with Cons.prems have "processInputs m cfg sh (done @ [p]) rest q = Inr (ps, q')" by simp
    from Cons.IH [OF this] Cons.prems(2) show ?thesis by simp
  next
    case False
    with Cons.prems obtain p' q1 where a: "applyQueue p q = Inr (p', q1)"
      and r: "processInputs m cfg sh (done @ [applyAI m cfg (sh (length done)) p' (done @ p' # rest)]) rest q1 = Inr (ps, q')"
      by (auto split: sum.splits)
    from Cons.IH [OF r] Cons.prems(2) have "q' i = q1 i" by simp
    also from applyQueue_queue [OF a] Cons.prems(2) have "q1 i = q i" by simp
    finally show ?thesis .
  qed
qed

text \<open>Step 1 at the player of index \<open>k\<close> among those still to visit.\<close>
lemma processInputs_nth:
  assumes "processInputs m cfg sh done todo q = Inr (ps, q')" and "distinct (map pid todo)"
    and "k < length todo" and "\<not> isDead (todo ! k)"
  shows "\<exists>qu ps0. q (pid (todo ! k)) = Some qu \<and> q' (pid (todo ! k)) = Some (tl qu)
           \<and> list_all2 sameBody ps0 (done @ todo)
           \<and> ps ! (length done + k)
              = applyAI m cfg (sh (length done + k))
                  (if qu = [] then todo ! k else (todo ! k)\<lparr>direction := hd qu\<rparr>) ps0"
  using assms
proof (induction todo arbitrary: "done" q k)
  case Nil
  then show ?case by simp
next
  case (Cons p rest)
  show ?case
  proof (cases k)
    case 0
    with Cons.prems(4) have alive: "\<not> isDead p" by simp
    with Cons.prems(1) obtain p' q1 where a: "applyQueue p q = Inr (p', q1)"
      and r: "processInputs m cfg sh (done @ [applyAI m cfg (sh (length done)) p' (done @ p' # rest)]) rest q1 = Inr (ps, q')"
      by (auto split: sum.splits)
    from applyQueue_Inr [OF a] obtain qu where qu: "q (pid p) = Some qu"
      "p' = (if qu = [] then p else p\<lparr>direction := hd qu\<rparr>)" "q1 (pid p) = Some (tl qu)"
      by blast
    from Cons.prems(2) have "pid p \<notin> pid ` set rest" by simp
    from processInputs_queue [OF r this] qu(3) have q': "q' (pid p) = Some (tl qu)" by simp
    from processInputs_sameBody [OF r] have "ps ! length done = applyAI m cfg (sh (length done)) p' (done @ p' # rest)"
      by (auto simp: nth_append)
    moreover have "list_all2 sameBody (done @ p' # rest) (done @ p # rest)"
      using applyQueue_sameBody [OF a] by (simp add: list_all2_appendI list_all2_refl)
    ultimately show ?thesis using qu q' unfolding 0
      by (intro exI [of _ qu] exI [of _ "done @ p' # rest"]) simp
  next
    case (Suc k')
    have k': "k' < length rest" "\<not> isDead (rest ! k')" "distinct (map pid rest)"
      using Cons.prems(2,3,4) Suc by simp_all
    from k'(1) have "rest ! k' \<in> set rest" by (rule nth_mem)
    moreover from Cons.prems(2) have "pid p \<notin> pid ` set rest" by simp
    ultimately have ne: "pid (rest ! k') \<noteq> pid p" by (metis image_eqI)
    show ?thesis
    proof (cases "isDead p")
      case True
      with Cons.prems(1) have r: "processInputs m cfg sh (done @ [p]) rest q = Inr (ps, q')" by simp
      from Cons.IH [OF r k'(3) k'(1) k'(2)] obtain qu ps0 where
        i: "q (pid (rest ! k')) = Some qu" "q' (pid (rest ! k')) = Some (tl qu)"
           "list_all2 sameBody ps0 ((done @ [p]) @ rest)"
           "ps ! (length (done @ [p]) + k')
              = applyAI m cfg (sh (length (done @ [p]) + k'))
                  (if qu = [] then rest ! k' else (rest ! k')\<lparr>direction := hd qu\<rparr>) ps0"
        by blast
      then show ?thesis unfolding Suc by (intro exI [of _ qu] exI [of _ ps0]) simp
    next
      case False
      with Cons.prems(1) obtain p' q1 where a: "applyQueue p q = Inr (p', q1)"
        and r: "processInputs m cfg sh (done @ [applyAI m cfg (sh (length done)) p' (done @ p' # rest)]) rest q1 = Inr (ps, q')"
        by (auto split: sum.splits)
      let ?p2 = "applyAI m cfg (sh (length done)) p' (done @ p' # rest)"
      from Cons.IH [OF r k'(3) k'(1) k'(2)] obtain qu ps0 where
        i: "q1 (pid (rest ! k')) = Some qu" "q' (pid (rest ! k')) = Some (tl qu)"
           "list_all2 sameBody ps0 ((done @ [?p2]) @ rest)"
           "ps ! (length (done @ [?p2]) + k')
              = applyAI m cfg (sh (length (done @ [?p2]) + k'))
                  (if qu = [] then rest ! k' else (rest ! k')\<lparr>direction := hd qu\<rparr>) ps0"
        by blast
      from applyQueue_queue [OF a ne] i(1) have "q (pid (rest ! k')) = Some qu" by simp
      moreover have "sameBody ?p2 p"
        by (rule sameBody_trans [OF applyAI_sameBody applyQueue_sameBody [OF a]])
      then have "list_all2 sameBody ((done @ [?p2]) @ rest) (done @ p # rest)"
        by (simp add: list_all2_appendI list_all2_refl)
      with i(3) have "list_all2 sameBody ps0 (done @ p # rest)"
        by (rule sameBody_list_trans)
      ultimately show ?thesis using i(2,4) unfolding Suc
        by (intro exI [of _ qu] exI [of _ ps0]) simp
    qed
  qed
qed

lemma pve_obstacles:
  "buildObstacles
     [\<lparr>pid = 1, color = ''#00f3ff'', head = \<lparr>cx = 0, cy = 3\<rparr>, trail = [\<lparr>cx = 0, cy = 3\<rparr>],
       direction = RIGHT, isDead = False, score = 0, name = ''Player 1''\<rparr>,
      \<lparr>pid = 2, color = ''#ff003c'', head = \<lparr>cx = 2, cy = 0\<rparr>, trail = [\<lparr>cx = 2, cy = 0\<rparr>],
       direction = d, isDead = False, score = 0, name = ''CPU''\<rparr>]
   = {(0, 3), (2, 0)}"
  by (auto simp: buildObstacles_def addPlayer_def key_def)

lemma keepOrder_UP: "shuffled keepOrder (possibleMoves UP) = [UP, LEFT, RIGHT]"
  by (simp add: keepOrder_def shuffled_def possibleMoves_def numDir_def)

lemma pve_fill:
  "floodFillCount \<lparr>cx = 1, cy = 0\<rparr> 4 4 {(0, 3), (2, 0)} 20 = 14"
  "floodFillCount \<lparr>cx = 3, cy = 0\<rparr> 4 4 {(0, 3), (2, 0)} 20 = 14"
  by (simp_all add: floodFillCount_def floodLoop.simps neighbors_def key_def)

lemma pve_ai:
  "getAIMove keepOrder
     \<lparr>pid = 2, color = ''#ff003c'', head = \<lparr>cx = 2, cy = 0\<rparr>, trail = [\<lparr>cx = 2, cy = 0\<rparr>],
      direction = UP, isDead = False, score = 0, name = ''CPU''\<rparr>
     [\<lparr>pid = 1, color = ''#00f3ff'', head = \<lparr>cx = 0, cy = 3\<rparr>, trail = [\<lparr>cx = 0, cy = 3\<rparr>],
       direction = RIGHT, isDead = False, score = 0, name = ''Player 1''\<rparr>,
      \<lparr>pid = 2, color = ''#ff003c'', head = \<lparr>cx = 2, cy = 0\<rparr>, trail = [\<lparr>cx = 2, cy = 0\<rparr>],
       direction = d, isDead = False, score = 0, name = ''CPU''\<rparr>] 4 4
   = LEFT"
  unfolding getAIMove_def pve_obstacles
  by (simp add: keepOrder_UP lethal_def key_def defaultDepth_def pve_fill)


text \<open>
  C4, as stated, fails: here player 2 is controlled by the AI and its queue holds UP.
  After the tick the queue is empty and the player faces LEFT, the choice of \<open>getAIMove\<close>,
  not UP, the dequeued direction.
\<close>

theorem ai_overrides_queue_counterexample:
  "mode pveGame = PVE \<and> pid (players pveGame ! 1) = 2 \<and> \<not> isDead (players pveGame ! 1)
   \<and> inputQueue pveGame 2 = Some [UP]
   \<and> updateGame noRandom pveGame = Inr pveNext
   \<and> direction (players pveNext ! 1) = LEFT
   \<and> direction (players pveNext ! 1) \<noteq> UP"
  by (simp add: pveGame_def pveNext_def noRandom_def tick_defs pve_ai)


text \<open>
  C4, amended: in step 1 of a tick, for each living player (ids being distinct): if its
  queue is not empty, the oldest queued turn is removed and becomes the facing; then,
  whether or not a turn was dequeued, if the player is controlled by the AI (mode PVE and
  id 2), \<open>getAIMove\<close> is called for the player with that facing and its result becomes the
  facing. So a player controlled by the AI with a queue that is not empty gets the choice
  of the AI, computed from the dequeued direction, and loses the queued turn.
\<close>

theorem step1_direction:
  assumes "\<not> isGameOver g" and "queuesReady g" and "distinct (map pid (players g))"
    and "i < length (players g)" and "\<not> isDead (players g ! i)"
  shows "\<exists>g' qu. updateGame rnd g = Inr g'
     \<and> inputQueue g (pid (players g ! i)) = Some qu
     \<and> inputQueue g' (pid (players g ! i)) = Some (tl qu)
     \<and> direction (players g' ! i)
        = (let queued = (if qu = [] then players g ! i else (players g ! i)\<lparr>direction := hd qu\<rparr>)
           in if mode g = PVE \<and> pid (players g ! i) = 2
              then getAIMove (aiShuffle rnd i) queued (players g)
                     (gridWidth (config g)) (gridHeight (config g))
              else direction queued)"
proof -
  let ?p = "players g ! i"
  from updateGame_returns [OF assms(2)] obtain g' where r: "updateGame rnd g = Inr g'" by blast
  from updateGame_tick [OF assms(1) r] obtain ps1 q where
    p: "processInputs (mode g) (config g) (aiShuffle rnd) [] (players g) (inputQueue g) = Inr (ps1, q)"
    and g': "g' = checkWin (g\<lparr>players := applyDeaths
                      (collectDeaths (config g) (map movePlayer ps1) (moveWalkers (config g) (walkerRand rnd) (walkers g)))
                      (map movePlayer ps1),
                    walkers := moveWalkers (config g) (walkerRand rnd) (walkers g), inputQueue := q\<rparr>)"
    by blast
  from processInputs_nth [OF p assms(3,4,5)] obtain qu ps0 where
    n: "inputQueue g (pid ?p) = Some qu" "q (pid ?p) = Some (tl qu)"
       "list_all2 sameBody ps0 (players g)"
       "ps1 ! i = applyAI (mode g) (config g) (aiShuffle rnd i)
                   (if qu = [] then ?p else ?p\<lparr>direction := hd qu\<rparr>) ps0"
    by auto
  let ?queued = "if qu = [] then ?p else ?p\<lparr>direction := hd qu\<rparr>"
  from processInputs_sameBody [OF p] have "length ps1 = length (players g)"
    by (auto dest: list_all2_lengthD)
  with assms(4) have len: "i < length (map movePlayer ps1)" by simp
  from applyDeaths_nth [OF len] have "direction (players g' ! i) = direction (movePlayer (ps1 ! i))"
    using len by (simp add: g' sameButDead_def)
  also have "\<dots> = direction (ps1 ! i)" by (simp add: movePlayer_def)
  also have "\<dots> = (if mode g = PVE \<and> pid ?queued = 2
                     then getAIMove (aiShuffle rnd i) ?queued ps0 (gridWidth (config g)) (gridHeight (config g))
                     else direction ?queued)"
    unfolding n(4) by (rule applyAI_direction)
  also have "getAIMove (aiShuffle rnd i) ?queued ps0 (gridWidth (config g)) (gridHeight (config g))
           = getAIMove (aiShuffle rnd i) ?queued (players g) (gridWidth (config g)) (gridHeight (config g))"
    by (rule getAIMove_sameBody [OF n(3)])
  also have "pid ?queued = pid ?p" by simp
  finally have d: "direction (players g' ! i)
        = (if mode g = PVE \<and> pid ?p = 2
           then getAIMove (aiShuffle rnd i) ?queued (players g) (gridWidth (config g)) (gridHeight (config g))
           else direction ?queued)" .
  have "inputQueue g' = q" by (simp add: g')
  with r n(1,2) d show ?thesis unfolding Let_def by (intro exI [of _ g'] exI [of _ qu]) simp
qed

lemma pve_ready:
  "\<not> isGameOver pveGame" "queuesReady pveGame" "distinct (map pid (players pveGame))"
  "1 < length (players pveGame)" "\<not> isDead (players pveGame ! 1)"
  by (simp_all add: pveGame_def queuesReady_def)

theorem step1_direction_witness:
  "\<not> isGameOver pveGame \<and> queuesReady pveGame \<and> distinct (map pid (players pveGame))
   \<and> 1 < length (players pveGame) \<and> \<not> isDead (players pveGame ! 1)
   \<and> (\<exists>g'. updateGame noRandom pveGame = Inr g' \<and> inputQueue g' 2 = Some []
          \<and> direction (players g' ! 1) = LEFT)"
proof -
  from step1_direction [OF pve_ready, of noRandom] obtain g' qu where
    g: "updateGame noRandom pveGame = Inr g'"
       "inputQueue pveGame (pid (players pveGame ! 1)) = Some qu"
       "inputQueue g' (pid (players pveGame ! 1)) = Some (tl qu)"
       "direction (players g' ! 1)
        = (let queued = (if qu = [] then players pveGame ! 1 else (players pveGame ! 1)\<lparr>direction := hd qu\<rparr>)
           in if mode pveGame = PVE \<and> pid (players pveGame ! 1) = 2
              then getAIMove (aiShuffle noRandom 1) queued (players pveGame)
                     (gridWidth (config pveGame)) (gridHeight (config pveGame))
              else direction queued)"
    by blast
  have i: "pid (players pveGame ! 1) = 2" "inputQueue pveGame 2 = Some [UP]"
    by (simp_all add: pveGame_def)
  from g(2) i have qu: "qu = [UP]" by simp
  from g(4) have "direction (players g' ! 1) = LEFT"
    unfolding qu by (simp add: pveGame_def noRandom_def pve_ai)
  with g(1,3) qu i(1) pve_ready show ?thesis by auto
qed

end
